theory Spec2Isabelle
  imports Main "HOL-Library.Word"
begin

unbundle bit_operations_syntax

section \<open>EEPROM wear levelling: the data model\<close>

text \<open>
  The device is a byte-addressable memory behind a 16-bit address (the transport takes a
  \<open>uint16_t address\<close>). Beside the memory the model keeps the sequence of transport calls
  issued so far, so that the order of the calls made by one operation can be stated.
\<close>

type_synonym byte = "8 word"
type_synonym addr = "16 word"

datatype event = Read addr nat | Write addr "byte list"

record device =
  mem :: "addr \<Rightarrow> byte"
  trace :: "event list"

text \<open>
  What C leaves undefined is a value of the model: an index outside the sector tables, and
  a transfer that runs over the end of the object it reads from or writes to.
\<close>

datatype fault = Bad_Sector_Index | Buffer_Overrun

text \<open>
  \<open>config.h\<close> leaves two things to the deployment: the CRC primitive
  (\<open>calculate_crc16\<close>, "User must implement it") and, through the target, the byte order
  in which the \<open>uint16_t crc\<close> field of \<open>struct_data_t\<close> lies in memory.
\<close>

record platform =
  calculate_crc16 :: "byte list \<Rightarrow> 16 word"
  big_endian :: bool

definition SECTOR_INACTIVE :: byte where
  "SECTOR_INACTIVE = 0"

definition SECTOR_ACTIVE :: byte where
  "SECTOR_ACTIVE = 1"

definition NUMBER_OF_SECTORS :: nat where
  "NUMBER_OF_SECTORS = 4"

definition sector_status_address :: "addr list" where
  "sector_status_address = [0x0000, 0x1000, 0x2000, 0x3000]"

definition sector_address :: "addr list" where
  "sector_address = [0x0002, 0x1002, 0x2002, 0x3002]"

text \<open>
  \<open>struct_data_t\<close> is \<open>uint8_t data[64]\<close> followed by \<open>uint16_t crc\<close>: 66 bytes, the
  crc field at byte offsets 64 and 65.
\<close>

definition DATA_BYTES :: nat where
  "DATA_BYTES = 64"

definition sizeof_struct_data_t :: nat where
  "sizeof_struct_data_t = DATA_BYTES + 2"

definition u16_of_bytes :: "bool \<Rightarrow> byte \<Rightarrow> byte \<Rightarrow> 16 word" where
  "u16_of_bytes be b0 b1 =
     (if be then push_bit 8 (ucast b0) OR ucast b1
      else push_bit 8 (ucast b1) OR ucast b0)"

text \<open>The field access \<open>sector.crc\<close> on a 66-byte image of the struct.\<close>

definition struct_crc :: "platform \<Rightarrow> byte list \<Rightarrow> 16 word" where
  "struct_crc p sector =
     u16_of_bytes (big_endian p) (sector ! DATA_BYTES) (sector ! Suc DATA_BYTES)"

section \<open>The transport\<close>

text \<open>
  Modelled from the spec: \<open>eeprom_write\<close> and \<open>eeprom_read\<close> are only declared in
  \<open>config.h\<close> ("Modify these for your EEPROM API"). Following the transport contract,
  a write stores the given bytes at consecutive addresses starting at \<open>address\<close>, a read
  returns the bytes found there; both are synchronous. Addresses are 16 bits wide and
  wrap around.
\<close>

fun store_bytes :: "(addr \<Rightarrow> byte) \<Rightarrow> addr \<Rightarrow> byte list \<Rightarrow> (addr \<Rightarrow> byte)" where
  "store_bytes m a [] = m"
| "store_bytes m a (b # bs) = store_bytes (m(a := b)) (a + 1) bs"

fun fetch_bytes :: "(addr \<Rightarrow> byte) \<Rightarrow> addr \<Rightarrow> nat \<Rightarrow> byte list" where
  "fetch_bytes m a 0 = []"
| "fetch_bytes m a (Suc n) = m a # fetch_bytes m (a + 1) n"

definition eeprom_write :: "device \<Rightarrow> addr \<Rightarrow> byte list \<Rightarrow> device" where
  "eeprom_write d a bs =
     d\<lparr>mem := store_bytes (mem d) a bs, trace := trace d @ [Write a bs]\<rparr>"

definition eeprom_read :: "device \<Rightarrow> addr \<Rightarrow> nat \<Rightarrow> byte list \<times> device" where
  "eeprom_read d a n =
     (fetch_bytes (mem d) a n, d\<lparr>trace := trace d @ [Read a n]\<rparr>)"

section \<open>The wear-levelling core\<close>

text \<open>
  \<open>setting_sector_clear\<close>: status = inactive, then the zeroed struct
  (\<open>sizeof(empty_sector)\<close> bytes) to the sector's payload address.
\<close>

definition setting_sector_clear :: "device \<Rightarrow> nat \<Rightarrow> fault + device" where
  "setting_sector_clear d sector =
     (if \<not> sector < NUMBER_OF_SECTORS then Inl Bad_Sector_Index
      else
        let empty_sector = replicate sizeof_struct_data_t (0 :: byte);
            d1 = eeprom_write d (sector_status_address ! sector) [SECTOR_INACTIVE]
        in Inr (eeprom_write d1 (sector_address ! sector) empty_sector))"

text \<open>
  \<open>eeprom_sector_write\<close>. \<open>current_sector\<close> is a \<open>uint8_t\<close>; in
  \<open>(current_sector + 1) % NUMBER_OF_SECTORS\<close> it is promoted to \<open>int\<close>, so the sum does
  not wrap before the remainder is taken. The buffer is the caller's object; reading
  \<open>size\<close> bytes (\<open>sz\<close> here) from a shorter one is an overrun.
\<close>

definition eeprom_sector_write ::
  "device \<Rightarrow> byte list \<Rightarrow> 32 word \<Rightarrow> 8 word \<Rightarrow> fault + (8 word \<times> device)" where
  "eeprom_sector_write d buffer sz current_sector =
     (if \<not> unat current_sector < NUMBER_OF_SECTORS then Inl Bad_Sector_Index
      else
        let d1 = eeprom_write d (sector_status_address ! unat current_sector) [SECTOR_INACTIVE];
            current_sector' = (of_nat ((unat current_sector + 1) mod NUMBER_OF_SECTORS) :: 8 word);
            d2 = eeprom_write d1 (sector_status_address ! unat current_sector') [SECTOR_ACTIVE]
        in if length buffer < unat sz then Inl Buffer_Overrun
           else Inr (current_sector',
                     eeprom_write d2 (sector_address ! unat current_sector')
                       (take (unat sz) buffer)))"

text \<open>
  \<open>eeprom_all_sectors_clear\<close> runs over the sectors and calls
  \<open>setting_system_state_clear(i2c, i)\<close> on each.

  Modelled from the spec: no function named \<open>setting_system_state_clear\<close> is defined or
  declared anywhere in the repository. The spec reads the name as a slip for the clear of
  one sector ("the intent is clearly to invoke clear_sector on every slot"), and the
  header documents \<open>eeprom_all_sectors_clear\<close> as "marking them inactive and erasing their
  contents"; the model follows that reading.
\<close>

definition setting_system_state_clear :: "device \<Rightarrow> nat \<Rightarrow> fault + device" where
  "setting_system_state_clear = setting_sector_clear"

function eeprom_all_sectors_clear_loop :: "device \<Rightarrow> nat \<Rightarrow> fault + device" where
  "eeprom_all_sectors_clear_loop d i =
     (if i < NUMBER_OF_SECTORS then
        (case setting_system_state_clear d i of
           Inl e \<Rightarrow> Inl e
         | Inr d' \<Rightarrow> eeprom_all_sectors_clear_loop d' (Suc i))
      else Inr d)"
  by pat_completeness auto
termination
  by (relation "measure (\<lambda>(d, i). NUMBER_OF_SECTORS - i)") auto

declare eeprom_all_sectors_clear_loop.simps [simp del]

definition eeprom_all_sectors_clear :: "device \<Rightarrow> fault + device" where
  "eeprom_all_sectors_clear d = eeprom_all_sectors_clear_loop d 0"

text \<open>
  \<open>eeprom_sector_load\<close>. The staging struct \<open>sector\<close> is zero-initialised once, before
  the loop; each read of an active sector overwrites its first \<open>size\<close> bytes and leaves
  the rest as it was. The CRC is taken over \<open>size - 2\<close> bytes, computed in \<open>uint32_t\<close>,
  and compared with the struct's \<open>crc\<close> field. The loop either returns from inside
  (after the \<open>memcpy\<close> into the caller's buffer) or falls through.
\<close>

datatype scan = Returned nat "byte list" device | Fell_Through "byte list" device

text \<open>The test \<open>calculate_crc16((uint8_t *)&sector, size - 2) == sector.crc\<close>.\<close>

definition crc_matches :: "platform \<Rightarrow> byte list \<Rightarrow> 32 word \<Rightarrow> bool" where
  "crc_matches p sector sz =
     (calculate_crc16 p (take (unat (sz - 2)) sector) = struct_crc p sector)"

function load_loop ::
  "platform \<Rightarrow> 32 word \<Rightarrow> byte list \<Rightarrow> nat \<Rightarrow> byte list \<Rightarrow> device \<Rightarrow> fault + scan" where
  "load_loop p sz buffer active_sector sector d =
     (if active_sector < NUMBER_OF_SECTORS then
        (case eeprom_read d (sector_status_address ! active_sector) 1 of
           (st, d1) \<Rightarrow>
             if hd st = SECTOR_ACTIVE then
               if sizeof_struct_data_t < unat sz then Inl Buffer_Overrun
               else
                 (case eeprom_read d1 (sector_address ! active_sector) (unat sz) of
                    (bs, d2) \<Rightarrow>
                      let sector' = bs @ drop (unat sz) sector in
                      if sizeof_struct_data_t < unat (sz - 2) then Inl Buffer_Overrun
                      else if crc_matches p sector' sz then
                        if length buffer < unat sz then Inl Buffer_Overrun
                        else Inr (Returned active_sector
                                    (take (unat sz) sector' @ drop (unat sz) buffer) d2)
                      else load_loop p sz buffer (Suc active_sector) sector' d2)
             else load_loop p sz buffer (Suc active_sector) sector d1)
      else Inr (Fell_Through sector d))"
  by pat_completeness auto
termination
  by (relation "measure (\<lambda>(p, sz, buffer, i, sector, d). NUMBER_OF_SECTORS - i)") auto

declare load_loop.simps [simp del]

definition eeprom_sector_load ::
  "platform \<Rightarrow> device \<Rightarrow> byte list \<Rightarrow> 32 word \<Rightarrow> fault + (8 word \<times> byte list \<times> device)" where
  "eeprom_sector_load p d buffer sz =
     (case load_loop p sz buffer 0 (replicate sizeof_struct_data_t 0) d of
        Inl e \<Rightarrow> Inl e
      | Inr (Returned active_sector buffer' d') \<Rightarrow> Inr (of_nat active_sector, buffer', d')
      | Inr (Fell_Through sector d') \<Rightarrow>
          (case eeprom_all_sectors_clear d' of
             Inl e \<Rightarrow> Inl e
           | Inr d1 \<Rightarrow>
               let d2 = eeprom_write d1 (sector_status_address ! 0) [SECTOR_ACTIVE]
               in if sizeof_struct_data_t < unat sz then Inl Buffer_Overrun
                  else Inr (0, buffer,
                            eeprom_write d2 (sector_address ! 0) (take (unat sz) sector))))"

section \<open>Running the operations in sequence\<close>

text \<open>
  The application keeps the index a call returns and passes it to the next write.
  \<open>write_seq\<close> performs the writes of a list of (buffer, size) pairs in that way and
  collects the indices returned; \<open>write_then_load\<close> is one write followed by a load
  of the same size, and gives the index the write returned, the index the load returned
  and the buffer after the load.
\<close>

fun write_seq ::
  "device \<Rightarrow> 8 word \<Rightarrow> (byte list \<times> 32 word) list \<Rightarrow> fault + (8 word list \<times> device)" where
  "write_seq d current_sector [] = Inr ([], d)"
| "write_seq d current_sector ((buffer, sz) # ws) =
     (case eeprom_sector_write d buffer sz current_sector of
        Inl e \<Rightarrow> Inl e
      | Inr (s, d') \<Rightarrow>
          (case write_seq d' s ws of
             Inl e \<Rightarrow> Inl e
           | Inr (ss, d'') \<Rightarrow> Inr (s # ss, d'')))"

definition write_then_load ::
  "platform \<Rightarrow> device \<Rightarrow> byte list \<Rightarrow> 32 word \<Rightarrow> 8 word \<Rightarrow> byte list \<Rightarrow>
     fault + (8 word \<times> 8 word \<times> byte list)" where
  "write_then_load p d buffer sz current_sector out =
     (case eeprom_sector_write d buffer sz current_sector of
        Inl e \<Rightarrow> Inl e
      | Inr (written, d1) \<Rightarrow>
          (case eeprom_sector_load p d1 out sz of
             Inl e \<Rightarrow> Inl e
           | Inr (loaded, out', d2) \<Rightarrow> Inr (written, loaded, out')))"

text \<open>What the caller of a load gets back: the index returned and its buffer.\<close>

definition seen ::
  "fault + (8 word \<times> byte list \<times> device) \<Rightarrow> fault + (8 word \<times> byte list)" where
  "seen r = (case r of Inl e \<Rightarrow> Inl e | Inr (s, buffer, d) \<Rightarrow> Inr (s, buffer))"

section \<open>Observing the device\<close>

text \<open>
  The status byte of a slot, the first \<open>n\<close> bytes of its payload region, and the
  transport writes among a sequence of calls.
\<close>

definition status_of :: "device \<Rightarrow> nat \<Rightarrow> byte" where
  "status_of d i = mem d (sector_status_address ! i)"

definition payload_of :: "device \<Rightarrow> nat \<Rightarrow> nat \<Rightarrow> byte list" where
  "payload_of d i n = fetch_bytes (mem d) (sector_address ! i) n"

fun is_write :: "event \<Rightarrow> bool" where
  "is_write (Write a bs) = True"
| "is_write (Read a n) = False"

definition writes_of :: "event list \<Rightarrow> event list" where
  "writes_of evs = filter is_write evs"

fun writes_to :: "addr \<Rightarrow> event \<Rightarrow> bool" where
  "writes_to a (Write a' bs) = (a' = a)"
| "writes_to a (Read a' n) = False"

text \<open>How many of the transport calls are writes to slot \<open>j\<close>'s payload address.\<close>

definition payload_writes :: "event list \<Rightarrow> nat \<Rightarrow> nat" where
  "payload_writes evs j = length (filter (writes_to (sector_address ! j)) evs)"

text \<open>
  What the load loop asks of slot \<open>i\<close> before it returns it: the status byte is
  \<open>SECTOR_ACTIVE\<close> and the CRC test holds on the staging struct after the slot's
  \<open>size\<close> bytes have been read into its front. The bytes of the struct behind them are
  still the zeros of its initialisation, since every read of one call has the same size.
\<close>

definition staged :: "device \<Rightarrow> 32 word \<Rightarrow> nat \<Rightarrow> byte list" where
  "staged d sz i =
     payload_of d i (unat sz) @ replicate (sizeof_struct_data_t - unat sz) 0"

definition validates :: "platform \<Rightarrow> device \<Rightarrow> 32 word \<Rightarrow> nat \<Rightarrow> bool" where
  "validates p d sz i \<longleftrightarrow>
     status_of d i = SECTOR_ACTIVE \<and> crc_matches p (staged d sz i) sz"

text \<open>The transport reads one pass of the loop over slot \<open>i\<close> issues.\<close>

definition scan_reads :: "device \<Rightarrow> 32 word \<Rightarrow> nat \<Rightarrow> event list" where
  "scan_reads d sz i =
     Read (sector_status_address ! i) 1 #
     (if status_of d i = SECTOR_ACTIVE then [Read (sector_address ! i) (unat sz)] else [])"

text \<open>
  The spec's wording of a well-formed record: the last two bytes of the blob hold the
  CRC-16 of all bytes before them.
\<close>

definition trailing_crc_ok :: "platform \<Rightarrow> byte list \<Rightarrow> bool" where
  "trailing_crc_ok p bs \<longleftrightarrow>
     2 \<le> length bs \<and>
     calculate_crc16 p (take (length bs - 2) bs) =
       u16_of_bytes (big_endian p) (bs ! (length bs - 2)) (bs ! (length bs - 1))"

text \<open>The three transport writes of one \<open>eeprom_sector_write\<close>, as a device.\<close>

definition rotated :: "device \<Rightarrow> byte list \<Rightarrow> nat \<Rightarrow> nat \<Rightarrow> device" where
  "rotated d bs old new =
     eeprom_write
       (eeprom_write
          (eeprom_write d (sector_status_address ! old) [SECTOR_INACTIVE])
          (sector_status_address ! new) [SECTOR_ACTIVE])
       (sector_address ! new) bs"

text \<open>The two transport writes of one \<open>setting_sector_clear\<close>, and the device after them.\<close>

definition clear_events :: "nat \<Rightarrow> event list" where
  "clear_events s =
     [Write (sector_status_address ! s) [SECTOR_INACTIVE],
      Write (sector_address ! s) (replicate sizeof_struct_data_t 0)]"

definition cleared :: "device \<Rightarrow> nat \<Rightarrow> device" where
  "cleared d s =
     eeprom_write (eeprom_write d (sector_status_address ! s) [SECTOR_INACTIVE])
       (sector_address ! s) (replicate sizeof_struct_data_t 0)"

text \<open>
  The staging struct when the loop has gone over the slots \<open>js\<close> without returning:
  every active slot among them has been read into it, the last one read stays.
\<close>

definition staging_after :: "device \<Rightarrow> 32 word \<Rightarrow> byte list \<Rightarrow> nat list \<Rightarrow> byte list" where
  "staging_after d sz sector js =
     foldl (\<lambda>s j. if status_of d j = SECTOR_ACTIVE then staged d sz j else s) sector js"

text \<open>
  The device after the recovery path of \<open>eeprom_sector_load\<close>: every sector cleared,
  then status = active and the bytes \<open>bs\<close> written to slot 0.
\<close>

definition bootstrapped :: "device \<Rightarrow> byte list \<Rightarrow> device" where
  "bootstrapped d bs =
     eeprom_write
       (eeprom_write (cleared (cleared (cleared (cleared d 0) 1) 2) 3)
          (sector_status_address ! 0) [SECTOR_ACTIVE])
       (sector_address ! 0) bs"

section \<open>A concrete deployment\<close>

text \<open>
  Modelled from the spec: \<open>calculate_crc16\<close> is only declared in \<open>config.h\<close>; the
  polynomial is a deployment choice. For concrete runs the development uses
  CRC-16/XMODEM (polynomial 0x1021, initial value 0, most significant bit first) on a
  little-endian target, and a device whose memory is all 0xFF, as an erased EEPROM is.
\<close>

definition crc16_shift :: "16 word \<Rightarrow> 16 word" where
  "crc16_shift c = (if bit c 15 then push_bit 1 c XOR 0x1021 else push_bit 1 c)"

definition crc16_update :: "16 word \<Rightarrow> byte \<Rightarrow> 16 word" where
  "crc16_update c b =
     crc16_shift (crc16_shift (crc16_shift (crc16_shift
       (crc16_shift (crc16_shift (crc16_shift (crc16_shift
         (c XOR push_bit 8 (ucast b)))))))))"

definition crc16_xmodem :: "byte list \<Rightarrow> 16 word" where
  "crc16_xmodem bs = foldl crc16_update 0 bs"

definition xmodem_le :: platform where
  "xmodem_le = \<lparr>calculate_crc16 = crc16_xmodem, big_endian = False\<rparr>"

definition erased_mem :: "addr \<Rightarrow> byte" where
  "erased_mem a = 0xFF"

definition fresh_device :: device where
  "fresh_device = \<lparr>mem = erased_mem, trace = []\<rparr>"

text \<open>An erased device on which the status byte of slot 0 alone has been set to active.\<close>

definition slot0_active :: device where
  "slot0_active = \<lparr>mem = erased_mem(0x0000 := 1), trace = []\<rparr>"

text \<open>
  A full record: the data bytes 1, 2, ..., 64 followed by their CRC 0x28CD, low byte
  first.
\<close>

fun ascending :: "nat \<Rightarrow> byte \<Rightarrow> byte list" where
  "ascending 0 b = []"
| "ascending (Suc n) b = b # ascending n (b + 1)"

definition record_1_to_64 :: "byte list" where
  "record_1_to_64 = ascending 64 1 @ [0xCD, 0x28]"

text \<open>
  A record of 4 bytes, shorter than the struct: the data bytes 0x31, 0x32 followed by
  their CRC 0x20B5, low byte first.
\<close>

definition short_record :: "byte list" where
  "short_record = [0x31, 0x32, 0xB5, 0x20]"

text \<open>
  An erased device on which the status byte of slot 3 alone is active: slot 3 is marked
  active over a payload of 66 bytes 0xFF, which fails the CRC test.
\<close>

definition torn_write :: device where
  "torn_write = \<lparr>mem = erased_mem(0x3000 := 1), trace = []\<rparr>"

text \<open>
  A device on which two slots, 1 and 3, are active and hold the full record; slot 0 is
  inactive and slot 2 erased.
\<close>

definition two_valid :: device where
  "two_valid = rotated (rotated slot0_active record_1_to_64 0 3) record_1_to_64 0 1"

text \<open>
  A device for records of 2 bytes, which are the CRC field alone: slot 1 is active and
  holds 0x12 0x34, which is not the CRC of no data; slot 3 is active and holds
  0x00 0x00, which is. Slot 0 is inactive and slot 2 erased.
\<close>

definition bad_before_good :: device where
  "bad_before_good = rotated (rotated slot0_active [0x00, 0x00] 0 3) [0x12, 0x34] 0 1"

text \<open>
  A device on which slot 0 is active over an erased payload, slot 1 is inactive, and
  slot 2 is active and holds the full record.
\<close>

definition stale_then_valid :: device where
  "stale_then_valid = rotated slot0_active record_1_to_64 1 2"

section \<open>Memory: what a store changes and what it leaves\<close>

lemma addr_Suc: "a + of_nat (Suc k) = (a + 1) + (of_nat k :: addr)"
  by (simp add: ac_simps)

lemma length_fetch_bytes [simp]: "length (fetch_bytes m a n) = n"
  by (induction n arbitrary: a) auto

lemma nth_fetch_bytes: "i < n \<Longrightarrow> fetch_bytes m a n ! i = m (a + of_nat i)"
proof (induction n arbitrary: a i)
  case 0
  then show ?case by simp
next
  case (Suc n)
  show ?case
  proof (cases i)
    case 0
    then show ?thesis by simp
  next
    case (Suc k)
    with Suc.prems have "k < n" by simp
    from Suc.IH [OF this, of "a + 1"] Suc show ?thesis
      by (simp only: addr_Suc fetch_bytes.simps nth_Cons_Suc)
  qed
qed

lemma store_bytes_outside:
  "(\<forall>i < length bs. x \<noteq> a + of_nat i) \<Longrightarrow> store_bytes m a bs x = m x"
proof (induction bs arbitrary: m a)
  case Nil
  then show ?case by simp
next
  case (Cons b bs)
  have "\<forall>i < length bs. x \<noteq> (a + 1) + of_nat i"
  proof (intro allI impI)
    fix i assume "i < length bs"
    then have "x \<noteq> a + of_nat (Suc i)" using Cons.prems by auto
    then show "x \<noteq> (a + 1) + of_nat i" by (simp only: addr_Suc not_False_eq_True)
  qed
  then have "store_bytes (m(a := b)) (a + 1) bs x = (m(a := b)) x"
    by (rule Cons.IH)
  moreover have "x \<noteq> a" using Cons.prems by force
  ultimately show ?case by simp
qed

lemma of_nat_16_neq_0: "0 < n \<Longrightarrow> n < 65536 \<Longrightarrow> (of_nat n :: 16 word) \<noteq> 0"
  using nat_dvd_not_less [of n "2 ^ 16"] by (simp add: word_of_nat_eq_0_iff)

lemma store_bytes_inside:
  "length bs \<le> 65536 \<Longrightarrow> i < length bs \<Longrightarrow> store_bytes m a bs (a + of_nat i) = bs ! i"
proof (induction bs arbitrary: m a i)
  case Nil
  then show ?case by simp
next
  case (Cons b bs)
  show ?case
  proof (cases i)
    case 0
    have "\<forall>j < length bs. a \<noteq> (a + 1) + of_nat j"
    proof (intro allI impI)
      fix j assume j: "j < length bs"
      then have "(of_nat (Suc j) :: 16 word) \<noteq> 0"
        using Cons.prems by (intro of_nat_16_neq_0) auto
      then have "a \<noteq> a + of_nat (Suc j)"
        by (simp del: of_nat_Suc)
      then show "a \<noteq> (a + 1) + of_nat j"
        by (simp only: addr_Suc not_False_eq_True)
    qed
    then have "store_bytes (m(a := b)) (a + 1) bs a = (m(a := b)) a"
      by (rule store_bytes_outside)
    with 0 show ?thesis by simp
  next
    case (Suc k)
    with Cons.prems have "k < length bs" "length bs \<le> 65536" by auto
    from Cons.IH [OF this(2) this(1), of "m(a := b)" "a + 1"] Suc show ?thesis
      by (simp only: addr_Suc store_bytes.simps nth_Cons_Suc)
  qed
qed

section \<open>The sector tables: slots do not overlap\<close>

lemma fetch_store_same:
  "length bs \<le> 65536 \<Longrightarrow> fetch_bytes (store_bytes m a bs) a (length bs) = bs"
  by (rule nth_equalityI) (simp_all add: nth_fetch_bytes store_bytes_inside)

lemma fetch_store_disjoint:
  "(\<forall>i < n. \<forall>j < length bs. a' + of_nat i \<noteq> a + of_nat j) \<Longrightarrow>
   fetch_bytes (store_bytes m a bs) a' n = fetch_bytes m a' n"
  by (rule nth_equalityI) (simp_all add: nth_fetch_bytes store_bytes_outside)

lemma sector_cases: "i < NUMBER_OF_SECTORS \<Longrightarrow> i = 0 \<or> i = 1 \<or> i = 2 \<or> i = 3"
  unfolding NUMBER_OF_SECTORS_def by arith

lemma unat_status_address:
  "i < NUMBER_OF_SECTORS \<Longrightarrow> unat (sector_status_address ! i) = 4096 * i"
  by (drule sector_cases) (auto simp: sector_status_address_def)

lemma unat_sector_address:
  "i < NUMBER_OF_SECTORS \<Longrightarrow> unat (sector_address ! i) = 4096 * i + 2"
  by (drule sector_cases) (auto simp: sector_address_def)

lemma unat_payload_byte:
  assumes "i < NUMBER_OF_SECTORS" and "k < 4094"
  shows "unat (sector_address ! i + of_nat k) = 4096 * i + 2 + k"
proof -
  have i: "i < 4" using assms(1) by (simp add: NUMBER_OF_SECTORS_def)
  have k: "unat (of_nat k :: addr) = k"
    using assms(2) by (simp add: unat_of_nat)
  have "unat (sector_address ! i) + unat (of_nat k :: addr) < 2 ^ LENGTH(16)"
    using i assms by (simp add: unat_sector_address k)
  then have "unat (sector_address ! i + of_nat k) = unat (sector_address ! i) + unat (of_nat k :: addr)"
    by (simp only: unat_add_lem)
  then show ?thesis by (simp add: unat_sector_address assms(1) k)
qed

lemma status_neq_status:
  "i < NUMBER_OF_SECTORS \<Longrightarrow> j < NUMBER_OF_SECTORS \<Longrightarrow> i \<noteq> j \<Longrightarrow>
   sector_status_address ! i \<noteq> sector_status_address ! j"
  using unat_status_address [of i] unat_status_address [of j] by force

lemma status_neq_payload:
  assumes "i < NUMBER_OF_SECTORS" "j < NUMBER_OF_SECTORS" "k < 4094"
  shows "sector_status_address ! i \<noteq> sector_address ! j + of_nat k"
proof
  assume "sector_status_address ! i = sector_address ! j + of_nat k"
  then have "unat (sector_status_address ! i) = unat (sector_address ! j + of_nat k)"
    by simp
  then have "4096 * i = 4096 * j + 2 + k"
    using assms by (simp add: unat_status_address unat_payload_byte)
  with assms(3) show False by (cases "i \<le> j") linarith+
qed

lemma payload_neq_payload:
  assumes "i < NUMBER_OF_SECTORS" "j < NUMBER_OF_SECTORS" "i \<noteq> j" "k < 4094" "l < 4094"
  shows "sector_address ! i + of_nat k \<noteq> sector_address ! j + of_nat l"
proof
  assume "sector_address ! i + of_nat k = sector_address ! j + of_nat l"
  then have "unat (sector_address ! i + of_nat k) = unat (sector_address ! j + of_nat l)"
    by simp
  then have "4096 * i + 2 + k = 4096 * j + 2 + l"
    using assms by (simp add: unat_payload_byte)
  with assms(3,4,5) show False by (cases "i < j") linarith+
qed

lemma status_of_trace [simp]: "status_of (d\<lparr>trace := t\<rparr>) i = status_of d i"
  by (simp add: status_of_def)

lemma payload_of_trace [simp]: "payload_of (d\<lparr>trace := t\<rparr>) i n = payload_of d i n"
  by (simp add: payload_of_def)

lemma length_payload_of [simp]: "length (payload_of d i n) = n"
  by (simp add: payload_of_def)

lemma status_of_write_status:
  "i < NUMBER_OF_SECTORS \<Longrightarrow> j < NUMBER_OF_SECTORS \<Longrightarrow>
   status_of (eeprom_write d (sector_status_address ! i) [v]) j =
     (if j = i then v else status_of d j)"
  using status_neq_status [of j i]
  by (auto simp: status_of_def eeprom_write_def)

lemma payload_of_write_status:
  assumes "i < NUMBER_OF_SECTORS" "j < NUMBER_OF_SECTORS" "n \<le> 4094"
  shows "payload_of (eeprom_write d (sector_status_address ! i) [v]) j n = payload_of d j n"
proof -
  have "sector_address ! j + of_nat k \<noteq> sector_status_address ! i + of_nat l"
    if "k < n" "l < length [v]" for k l
    using that assms status_neq_payload [of i j k] by simp
  then have "fetch_bytes (store_bytes (mem d) (sector_status_address ! i) [v]) (sector_address ! j) n
      = fetch_bytes (mem d) (sector_address ! j) n"
    by (intro fetch_store_disjoint) blast
  then show ?thesis
    by (simp add: payload_of_def eeprom_write_def)
qed

lemma status_of_write_payload:
  assumes "i < NUMBER_OF_SECTORS" "j < NUMBER_OF_SECTORS" "length bs \<le> 4094"
  shows "status_of (eeprom_write d (sector_address ! i) bs) j = status_of d j"
proof -
  have "\<forall>k < length bs. sector_status_address ! j \<noteq> sector_address ! i + of_nat k"
    using assms status_neq_payload [of j i] by auto
  then show ?thesis
    by (simp add: status_of_def eeprom_write_def store_bytes_outside)
qed

lemma payload_of_write_payload_same:
  "length bs \<le> 65536 \<Longrightarrow>
   payload_of (eeprom_write d (sector_address ! i) bs) i (length bs) = bs"
  by (simp add: payload_of_def eeprom_write_def fetch_store_same)

lemma payload_of_write_payload_other:
  assumes "i < NUMBER_OF_SECTORS" "j < NUMBER_OF_SECTORS" "i \<noteq> j" "length bs \<le> 4094" "n \<le> 4094"
  shows "payload_of (eeprom_write d (sector_address ! i) bs) j n = payload_of d j n"
proof -
  have "sector_address ! j + of_nat k \<noteq> sector_address ! i + of_nat l"
    if "k < n" "l < length bs" for k l
    using that assms payload_neq_payload [of j i k l] by simp
  then have "fetch_bytes (store_bytes (mem d) (sector_address ! i) bs) (sector_address ! j) n
      = fetch_bytes (mem d) (sector_address ! j) n"
    by (intro fetch_store_disjoint) blast
  then show ?thesis
    by (simp add: payload_of_def eeprom_write_def)
qed

lemma trace_eeprom_write [simp]: "trace (eeprom_write d a bs) = trace d @ [Write a bs]"
  by (simp add: eeprom_write_def)

section \<open>The write operation\<close>

lemma mem_trace_update [simp]: "mem (d\<lparr>trace := t\<rparr>) = mem d"
  by simp

lemma next_sector_less: "(n + 1) mod NUMBER_OF_SECTORS < NUMBER_OF_SECTORS"
  by (simp add: NUMBER_OF_SECTORS_def)

lemma unat_next_sector:
  "unat (of_nat ((n + 1) mod NUMBER_OF_SECTORS) :: 8 word) = (n + 1) mod NUMBER_OF_SECTORS"
proof -
  have "(n + 1) mod NUMBER_OF_SECTORS < 256"
    using next_sector_less [of n] by (simp add: NUMBER_OF_SECTORS_def)
  then show ?thesis by (simp add: unat_of_nat)
qed

lemma eeprom_sector_write_eq:
  assumes "unat current_sector < NUMBER_OF_SECTORS" and "unat sz \<le> length buffer"
  shows "eeprom_sector_write d buffer sz current_sector =
    Inr (of_nat ((unat current_sector + 1) mod NUMBER_OF_SECTORS),
         rotated d (take (unat sz) buffer) (unat current_sector)
           ((unat current_sector + 1) mod NUMBER_OF_SECTORS))"
  using assms unat_next_sector [of "unat current_sector"]
  by (simp add: eeprom_sector_write_def rotated_def Let_def)

lemma trace_rotated:
  "trace (rotated d bs old new) = trace d @
     [Write (sector_status_address ! old) [SECTOR_INACTIVE],
      Write (sector_status_address ! new) [SECTOR_ACTIVE],
      Write (sector_address ! new) bs]"
  by (simp add: rotated_def)

lemma status_of_rotated:
  assumes "old < NUMBER_OF_SECTORS" "new < NUMBER_OF_SECTORS" "j < NUMBER_OF_SECTORS"
    and "length bs \<le> 4094"
  shows "status_of (rotated d bs old new) j =
    (if j = new then SECTOR_ACTIVE else if j = old then SECTOR_INACTIVE else status_of d j)"
  using assms
  by (simp add: rotated_def status_of_write_payload status_of_write_status)

lemma payload_of_rotated_new:
  "length bs \<le> 4094 \<Longrightarrow> payload_of (rotated d bs old new) new (length bs) = bs"
  by (simp add: rotated_def payload_of_write_payload_same)

lemma payload_of_rotated_other:
  assumes "old < NUMBER_OF_SECTORS" "new < NUMBER_OF_SECTORS" "j < NUMBER_OF_SECTORS"
    and "j \<noteq> new" "length bs \<le> 4094" "n \<le> 4094"
  shows "payload_of (rotated d bs old new) j n = payload_of d j n"
  using assms
  by (simp add: rotated_def payload_of_write_payload_other payload_of_write_status)

text \<open>
  Claim C2. For a current sector in 0..3 and a buffer that holds at least \<open>size\<close>
  bytes, \<open>eeprom_sector_write\<close> issues exactly three transport calls, in this order:
  status = inactive to the current sector's status address, status = active to the status
  address of sector (current + 1) mod 4, and the first \<open>size\<close> bytes of the buffer to
  that sector's payload address. It returns (current + 1) mod 4.
\<close>

theorem write_issues_three_writes_in_order:
  assumes "unat current_sector < NUMBER_OF_SECTORS" and "unat sz \<le> length buffer"
  shows "\<exists>d'. eeprom_sector_write d buffer sz current_sector =
           Inr (of_nat ((unat current_sector + 1) mod NUMBER_OF_SECTORS), d') \<and>
         trace d' = trace d @
           [Write (sector_status_address ! unat current_sector) [SECTOR_INACTIVE],
            Write (sector_status_address ! ((unat current_sector + 1) mod NUMBER_OF_SECTORS))
              [SECTOR_ACTIVE],
            Write (sector_address ! ((unat current_sector + 1) mod NUMBER_OF_SECTORS))
              (take (unat sz) buffer)]"
  using assms by (simp add: eeprom_sector_write_eq trace_rotated)

theorem write_issues_three_writes_in_order_witness:
  "unat (3 :: 8 word) < NUMBER_OF_SECTORS \<and> unat (2 :: 32 word) \<le> length [7, 8, 9 :: byte] \<and>
   (\<exists>d'. eeprom_sector_write fresh_device [7, 8, 9] 2 3 = Inr (0, d') \<and>
      trace d' = [Write 0x3000 [0], Write 0x0000 [1], Write 0x0002 [7, 8]])"
proof -
  have h1: "unat (3 :: 8 word) < NUMBER_OF_SECTORS"
    by (simp add: NUMBER_OF_SECTORS_def)
  have h2: "unat (2 :: 32 word) \<le> length [7, 8, 9 :: byte]"
    by simp
  show ?thesis
    using h1 h2 write_issues_three_writes_in_order [OF h1 h2, of fresh_device]
    by (simp add: NUMBER_OF_SECTORS_def sector_status_address_def sector_address_def
        SECTOR_INACTIVE_def SECTOR_ACTIVE_def fresh_device_def)
qed

lemma ascending_numeral:
  "ascending (numeral k) b = b # ascending (pred_numeral k) (b + 1)"
  by (simp add: numeral_eq_Suc)

lemma fetch_bytes_numeral:
  "fetch_bytes m a (numeral k) = m a # fetch_bytes m (a + 1) (pred_numeral k)"
  by (simp add: numeral_eq_Suc)

lemma replicate_numeral:
  "replicate (numeral k) x = x # replicate (pred_numeral k) x"
  by (simp add: numeral_eq_Suc)

lemma length_ascending [simp]: "length (ascending n b) = n"
  by (induction n arbitrary: b) auto

lemma trailing_crc_record_1_to_64: "trailing_crc_ok xmodem_le record_1_to_64"
  by (simp add: trailing_crc_ok_def xmodem_le_def record_1_to_64_def u16_of_bytes_def
      crc16_xmodem_def crc16_update_def crc16_shift_def ascending_numeral)

lemma slot0_active_statuses:
  "j < NUMBER_OF_SECTORS \<Longrightarrow> status_of slot0_active j = SECTOR_ACTIVE \<longleftrightarrow> j = 0"
  by (drule sector_cases)
    (auto simp: status_of_def slot0_active_def sector_status_address_def SECTOR_ACTIVE_def
      erased_mem_def)

lemma unat_next_sector_Suc:
  "unat (of_nat (Suc n mod NUMBER_OF_SECTORS) :: 8 word) = Suc n mod NUMBER_OF_SECTORS"
  using unat_next_sector [of n] by simp

text \<open>
  Claim C7. Let exactly one slot, the one passed as \<open>current_sector\<close>, be active, and
  let the buffer's first \<open>size\<close> bytes be a record with a correct trailing CRC that
  fits a slot's payload region (4094 bytes between a payload address and the next status
  byte in the sector tables). Then \<open>eeprom_sector_write\<close> succeeds, and afterwards
  exactly one slot is active, namely (current_sector + 1) mod 4; its payload is the
  record written, so its trailing CRC is correct.
\<close>

theorem write_leaves_exactly_next_slot_active:
  assumes cs: "unat current_sector < NUMBER_OF_SECTORS"
    and one: "\<forall>j < NUMBER_OF_SECTORS. status_of d j = SECTOR_ACTIVE \<longleftrightarrow> j = unat current_sector"
    and len: "unat sz \<le> length buffer"
    and fits: "unat sz \<le> 4094"
    and crc: "trailing_crc_ok p (take (unat sz) buffer)"
  shows "\<exists>s d'. eeprom_sector_write d buffer sz current_sector = Inr (s, d') \<and>
           unat s = (unat current_sector + 1) mod NUMBER_OF_SECTORS \<and>
           (\<forall>j < NUMBER_OF_SECTORS. status_of d' j = SECTOR_ACTIVE \<longleftrightarrow> j = unat s) \<and>
           payload_of d' (unat s) (unat sz) = take (unat sz) buffer \<and>
           trailing_crc_ok p (payload_of d' (unat s) (unat sz))"
proof -
  let ?old = "unat current_sector"
  let ?new = "(unat current_sector + 1) mod NUMBER_OF_SECTORS"
  let ?bs = "take (unat sz) buffer"
  let ?d' = "rotated d ?bs ?old ?new"
  have new: "?new < NUMBER_OF_SECTORS" by (rule next_sector_less)
  have neq: "?new \<noteq> ?old"
    using cs unfolding NUMBER_OF_SECTORS_def by presburger
  have lbs: "length ?bs = unat sz" using len by simp
  have w: "eeprom_sector_write d buffer sz current_sector = Inr (of_nat ?new, ?d')"
    using cs len by (rule eeprom_sector_write_eq)
  have st: "status_of ?d' j = SECTOR_ACTIVE \<longleftrightarrow> j = ?new" if "j < NUMBER_OF_SECTORS" for j
  proof -
    have "status_of ?d' j =
        (if j = ?new then SECTOR_ACTIVE else if j = ?old then SECTOR_INACTIVE else status_of d j)"
      using cs new that fits lbs by (intro status_of_rotated) simp_all
    moreover have "status_of d j \<noteq> SECTOR_ACTIVE" if "j \<noteq> ?old"
      using one \<open>j < NUMBER_OF_SECTORS\<close> that by blast
    ultimately show ?thesis
      by (simp add: SECTOR_ACTIVE_def SECTOR_INACTIVE_def)
  qed
  have "payload_of ?d' ?new (length ?bs) = ?bs"
    using fits lbs by (intro payload_of_rotated_new) simp
  then have pl: "payload_of ?d' ?new (unat sz) = ?bs"
    by (simp only: lbs)
  show ?thesis
    using w st pl crc by (simp add: unat_next_sector_Suc)
qed

theorem write_leaves_exactly_next_slot_active_witness:
  "unat (0 :: 8 word) < NUMBER_OF_SECTORS \<and>
   status_of slot0_active 0 = SECTOR_ACTIVE \<and> status_of slot0_active 1 \<noteq> SECTOR_ACTIVE \<and>
   status_of slot0_active 2 \<noteq> SECTOR_ACTIVE \<and> status_of slot0_active 3 \<noteq> SECTOR_ACTIVE \<and>
   unat (66 :: 32 word) \<le> length record_1_to_64 \<and>
   unat (66 :: 32 word) \<le> 4094 \<and>
   trailing_crc_ok xmodem_le (take (unat (66 :: 32 word)) record_1_to_64) \<and>
   (\<exists>s d'. eeprom_sector_write slot0_active record_1_to_64 66 0 = Inr (s, d') \<and>
      unat s = 1 \<and>
      (\<forall>j < NUMBER_OF_SECTORS. status_of d' j = SECTOR_ACTIVE \<longleftrightarrow> j = unat s) \<and>
      payload_of d' (unat s) (unat (66 :: 32 word)) = record_1_to_64 \<and>
      trailing_crc_ok xmodem_le (payload_of d' (unat s) (unat (66 :: 32 word))))"
proof -
  have h1: "unat (0 :: 8 word) < NUMBER_OF_SECTORS"
    by (simp add: NUMBER_OF_SECTORS_def)
  have h2: "\<forall>j < NUMBER_OF_SECTORS. status_of slot0_active j = SECTOR_ACTIVE \<longleftrightarrow> j = unat (0 :: 8 word)"
    by (simp add: slot0_active_statuses)
  have l: "length record_1_to_64 = 66"
    by (simp add: record_1_to_64_def)
  have h3: "unat (66 :: 32 word) \<le> length record_1_to_64"
    by (simp add: l)
  have h4: "unat (66 :: 32 word) \<le> 4094"
    by simp
  have h5: "trailing_crc_ok xmodem_le (take (unat (66 :: 32 word)) record_1_to_64)"
    by (simp add: l trailing_crc_record_1_to_64)
  have h2': "status_of slot0_active 0 = SECTOR_ACTIVE \<and> status_of slot0_active 1 \<noteq> SECTOR_ACTIVE \<and>
      status_of slot0_active 2 \<noteq> SECTOR_ACTIVE \<and> status_of slot0_active 3 \<noteq> SECTOR_ACTIVE"
    by (simp add: slot0_active_statuses NUMBER_OF_SECTORS_def)
  show ?thesis
    using h1 h2' h3 h4 h5
      write_leaves_exactly_next_slot_active [OF h1 h2 h3 h4 h5]
    by (simp add: l NUMBER_OF_SECTORS_def)
qed

section \<open>Sequences of writes\<close>

lemma payload_writes_append:
  "payload_writes (xs @ ys) j = payload_writes xs j + payload_writes ys j"
  by (simp add: payload_writes_def)

lemma status_address_neq_sector_address:
  assumes "i < NUMBER_OF_SECTORS" "j < NUMBER_OF_SECTORS"
  shows "sector_status_address ! i \<noteq> sector_address ! j"
  using status_neq_payload [OF assms, of 0] by simp

lemma sector_address_inj:
  assumes "i < NUMBER_OF_SECTORS" "j < NUMBER_OF_SECTORS"
  shows "sector_address ! i = sector_address ! j \<longleftrightarrow> i = j"
  using payload_neq_payload [OF assms, of 0 0] by auto

lemma payload_writes_rotation:
  assumes "old < NUMBER_OF_SECTORS" "new < NUMBER_OF_SECTORS" "j < NUMBER_OF_SECTORS"
  shows "payload_writes
     [Write (sector_status_address ! old) [SECTOR_INACTIVE],
      Write (sector_status_address ! new) [SECTOR_ACTIVE],
      Write (sector_address ! new) bs] j = (if new = j then 1 else 0)"
  using assms status_address_neq_sector_address [of old j]
    status_address_neq_sector_address [of new j] sector_address_inj [of new j]
  by (simp add: payload_writes_def)

lemma write_seq_rotates:
  assumes "unat s0 < NUMBER_OF_SECTORS"
    and "\<forall>w \<in> set ws. unat (snd w) \<le> length (fst w)"
  shows "\<exists>ss d' evs. write_seq d s0 ws = Inr (ss, d') \<and> length ss = length ws \<and>
           (\<forall>i < length ws. unat (ss ! i) = (unat s0 + Suc i) mod NUMBER_OF_SECTORS) \<and>
           trace d' = trace d @ evs \<and>
           (\<forall>j < NUMBER_OF_SECTORS. payload_writes evs j = count_list (map unat ss) j)"
  using assms
proof (induction ws arbitrary: d s0)
  case Nil
  then show ?case by (simp add: payload_writes_def)
next
  case (Cons w ws)
  obtain buffer sz where w: "w = (buffer, sz)" by (cases w)
  let ?new = "(unat s0 + 1) mod NUMBER_OF_SECTORS"
  let ?s1 = "of_nat ?new :: 8 word"
  let ?d1 = "rotated d (take (unat sz) buffer) (unat s0) ?new"
  let ?evs1 = "[Write (sector_status_address ! unat s0) [SECTOR_INACTIVE],
      Write (sector_status_address ! ?new) [SECTOR_ACTIVE],
      Write (sector_address ! ?new) (take (unat sz) buffer)]"
  have len: "unat sz \<le> length buffer" using Cons.prems(2) w by simp
  have new: "?new < NUMBER_OF_SECTORS" by (rule next_sector_less)
  have s1: "unat ?s1 = ?new" by (rule unat_next_sector)
  have first: "eeprom_sector_write d buffer sz s0 = Inr (?s1, ?d1)"
    using Cons.prems(1) len by (rule eeprom_sector_write_eq)
  have "unat ?s1 < NUMBER_OF_SECTORS" using new s1 by simp
  moreover have "\<forall>w \<in> set ws. unat (snd w) \<le> length (fst w)"
    using Cons.prems(2) by simp
  ultimately obtain ss d' evs where rest: "write_seq ?d1 ?s1 ws = Inr (ss, d')"
    and lss: "length ss = length ws"
    and idx: "\<forall>i < length ws. unat (ss ! i) = (unat ?s1 + Suc i) mod NUMBER_OF_SECTORS"
    and tr: "trace d' = trace ?d1 @ evs"
    and cnt: "\<forall>j < NUMBER_OF_SECTORS. payload_writes evs j = count_list (map unat ss) j"
    using Cons.IH [of ?s1 ?d1] by blast
  have run: "write_seq d s0 (w # ws) = Inr (?s1 # ss, d')"
    using first rest by (simp add: w)
  have idx': "unat ((?s1 # ss) ! i) = (unat s0 + Suc i) mod NUMBER_OF_SECTORS"
    if "i < length (w # ws)" for i
  proof (cases i)
    case 0
    then show ?thesis using s1 by simp
  next
    case (Suc k)
    with that have "k < length ws" by simp
    with idx have "unat (ss ! k) = (?new + Suc k) mod NUMBER_OF_SECTORS"
      by (simp only: s1)
    also have "\<dots> = (unat s0 + 1 + Suc k) mod NUMBER_OF_SECTORS"
      by (rule mod_add_left_eq)
    finally show ?thesis using Suc by simp
  qed
  have tr': "trace d' = trace d @ (?evs1 @ evs)"
    by (simp add: tr trace_rotated)
  have cnt': "payload_writes (?evs1 @ evs) j = count_list (map unat (?s1 # ss)) j"
    if "j < NUMBER_OF_SECTORS" for j
  proof -
    have "payload_writes ?evs1 j = (if ?new = j then 1 else 0)"
      using Cons.prems(1) new that by (rule payload_writes_rotation)
    then show ?thesis
      using cnt that s1 by (simp only: payload_writes_append list.map count_list.simps) simp
  qed
  show ?case
    using run lss idx' tr' cnt' by (intro exI [of _ "?s1 # ss"] exI [of _ d'] exI [of _ "?evs1 @ evs"]) simp
qed

section \<open>The load loop, one pass at a time\<close>

lemma load_loop_step:
  assumes "i < NUMBER_OF_SECTORS"
  shows "load_loop p sz buffer i sector d =
    (if status_of d i = SECTOR_ACTIVE then
       if sizeof_struct_data_t < unat sz then Inl Buffer_Overrun
       else if sizeof_struct_data_t < unat (sz - 2) then Inl Buffer_Overrun
       else if crc_matches p (payload_of d i (unat sz) @ drop (unat sz) sector) sz then
         if length buffer < unat sz then Inl Buffer_Overrun
         else Inr (Returned i
                (take (unat sz) (payload_of d i (unat sz) @ drop (unat sz) sector) @
                 drop (unat sz) buffer)
                (d\<lparr>trace := trace d @ scan_reads d sz i\<rparr>))
       else load_loop p sz buffer (Suc i)
              (payload_of d i (unat sz) @ drop (unat sz) sector)
              (d\<lparr>trace := trace d @ scan_reads d sz i\<rparr>)
     else load_loop p sz buffer (Suc i) sector (d\<lparr>trace := trace d @ scan_reads d sz i\<rparr>))"
  using assms
  by (subst load_loop.simps)
    (simp add: eeprom_read_def status_of_def payload_of_def scan_reads_def Let_def)

lemma load_loop_done:
  "\<not> i < NUMBER_OF_SECTORS \<Longrightarrow> load_loop p sz buffer i sector d = Inr (Fell_Through sector d)"
  by (subst load_loop.simps) simp

section \<open>Rotation is fair; what load returns is a slot index\<close>

lemma rotation_hit_aux:
  fixes x j :: nat
  assumes "j < 4"
  shows "x mod 4 = j \<longleftrightarrow> (x + 3 * j) mod 4 = 0"
proof -
  from assms consider "j = 0" | "j = 1" | "j = 2" | "j = 3" by linarith
  then show ?thesis
  proof cases
    case 1 then show ?thesis by simp
  next
    case 2 then show ?thesis by simp presburger
  next
    case 3 then show ?thesis by simp presburger
  next
    case 4 then show ?thesis by simp presburger
  qed
qed

lemma rotation_hit:
  fixes a j K :: nat
  assumes "j < 4"
  shows "(a + Suc K) mod 4 = j \<longleftrightarrow> (K + (a + 1 + 3 * j) mod 4) mod 4 = 0"
proof -
  have "(K + (a + 1 + 3 * j) mod 4) mod 4 = (K + (a + 1 + 3 * j)) mod 4"
    by (rule mod_add_right_eq)
  also have "\<dots> = ((a + Suc K) + 3 * j) mod 4"
    by (simp add: ac_simps)
  finally show ?thesis
    using rotation_hit_aux [OF assms, of "a + Suc K"] by simp
qed

lemma ceil_div4_step:
  fixes n :: nat
  shows "(if n mod 4 = 0 then 1 else 0) + (n + 3) div 4 = (n + 4) div 4"
  by arith

lemma count_rotation:
  assumes "j < 4"
  shows "count_list (map (\<lambda>i. (a + Suc i) mod 4) [0..<K]) j + ((a + 1 + 3 * j) mod 4 + 3) div 4 =
         (K + (a + 1 + 3 * j) mod 4 + 3) div 4"
proof (induction K)
  case 0
  then show ?case by simp
next
  case (Suc K)
  let ?t = "(a + 1 + 3 * j) mod 4"
  have "count_list (map (\<lambda>i. (a + Suc i) mod 4) [0..<Suc K]) j =
      count_list (map (\<lambda>i. (a + Suc i) mod 4) [0..<K]) j + (if (K + ?t) mod 4 = 0 then 1 else 0)"
    using rotation_hit [OF assms, of a K] by simp
  with Suc.IH have "count_list (map (\<lambda>i. (a + Suc i) mod 4) [0..<Suc K]) j + (?t + 3) div 4 =
      (if (K + ?t) mod 4 = 0 then 1 else 0) + (K + ?t + 3) div 4"
    by simp
  also have "\<dots> = (K + ?t + 4) div 4"
    by (rule ceil_div4_step)
  finally show ?case by (simp add: ac_simps)
qed

lemma fair_share:
  fixes c K t :: nat
  assumes "c + (t + 3) div 4 = (K + t + 3) div 4" "t < 4"
  shows "c = K div 4 \<or> c = (K + 4 - 1) div 4"
  using assms by arith

lemma count_rotation_fair:
  assumes "j < NUMBER_OF_SECTORS"
  shows "count_list (map (\<lambda>i. (a + Suc i) mod NUMBER_OF_SECTORS) [0..<K]) j = K div NUMBER_OF_SECTORS \<or>
         count_list (map (\<lambda>i. (a + Suc i) mod NUMBER_OF_SECTORS) [0..<K]) j =
           (K + NUMBER_OF_SECTORS - 1) div NUMBER_OF_SECTORS"
proof -
  have j: "j < 4" using assms by (simp add: NUMBER_OF_SECTORS_def)
  have "(a + 1 + 3 * j) mod 4 < 4" by simp
  with count_rotation [OF j, of a K] show ?thesis
    unfolding NUMBER_OF_SECTORS_def by (rule fair_share)
qed

lemma load_loop_Returned_range:
  "load_loop p sz buffer i sector d = Inr (Returned k b d') \<Longrightarrow> i \<le> k \<and> k < NUMBER_OF_SECTORS"
proof (induction "NUMBER_OF_SECTORS - i" arbitrary: i sector d)
  case 0
  then have "\<not> i < NUMBER_OF_SECTORS" by simp
  with "0.prems" show ?case by (simp add: load_loop_done)
next
  case (Suc n)
  then have i: "i < NUMBER_OF_SECTORS" and n: "n = NUMBER_OF_SECTORS - Suc i" by simp_all
  have "k = i \<or> (\<exists>sector' d1. load_loop p sz buffer (Suc i) sector' d1 = Inr (Returned k b d'))"
    using Suc.prems unfolding load_loop_step [OF i] by (auto split: if_splits)
  then show ?case
  proof
    assume "k = i"
    with i show ?thesis by simp
  next
    assume "\<exists>sector' d1. load_loop p sz buffer (Suc i) sector' d1 = Inr (Returned k b d')"
    then obtain sector' d1 where "load_loop p sz buffer (Suc i) sector' d1 = Inr (Returned k b d')"
      by blast
    then have "Suc i \<le> k \<and> k < NUMBER_OF_SECTORS"
      by (rule Suc.hyps(1) [OF n])
    then show ?thesis by simp
  qed
qed

lemma eeprom_sector_load_index:
  assumes "eeprom_sector_load p d buffer sz = Inr (s, buffer', d')"
  shows "unat s < NUMBER_OF_SECTORS"
proof (cases "load_loop p sz buffer 0 (replicate sizeof_struct_data_t 0) d")
  case (Inl e)
  with assms show ?thesis by (simp add: eeprom_sector_load_def)
next
  case (Inr r)
  show ?thesis
  proof (cases r)
    case (Returned k b d1)
    with Inr have "k < NUMBER_OF_SECTORS"
      using load_loop_Returned_range by blast
    moreover have "s = of_nat k" using assms Inr Returned by (simp add: eeprom_sector_load_def)
    ultimately show ?thesis
      by (simp add: unat_of_nat NUMBER_OF_SECTORS_def)
  next
    case (Fell_Through sector d1)
    with assms Inr have "s = 0"
      by (auto simp: eeprom_sector_load_def Let_def split: sum.splits if_splits)
    then show ?thesis by (simp add: NUMBER_OF_SECTORS_def)
  qed
qed

lemma seen_Inr:
  "seen r = Inr (s, b) \<Longrightarrow> \<exists>d. r = Inr (s, b, d)"
  by (auto simp: seen_def split: sum.splits)

lemma load_fresh_device_seen:
  "seen (eeprom_sector_load xmodem_le fresh_device (replicate 66 0xAA) 66) =
     Inr (0, replicate 66 0xAA)"
  by (simp add: seen_def eeprom_sector_load_def load_loop.simps eeprom_read_def
      fresh_device_def erased_mem_def NUMBER_OF_SECTORS_def sector_status_address_def SECTOR_ACTIVE_def
      eeprom_all_sectors_clear_def eeprom_all_sectors_clear_loop.simps
      setting_system_state_clear_def setting_sector_clear_def Let_def sizeof_struct_data_t_def DATA_BYTES_def)

text \<open>
  Claim C8. Start from a load that returned slot \<open>s0\<close> and perform a sequence of writes,
  each given the index the previous call returned (every buffer holding at least the
  bytes asked for). All of them succeed; the write number i + 1 returns
  (s0 + i + 1) mod 4; and among the transport calls of the K writes, each slot's payload
  address is written either the floor or the ceiling of K / 4 times.
\<close>

theorem writes_rotate_round_robin:
  assumes "eeprom_sector_load p d0 out sz0 = Inr (s0, out', d)"
    and "\<forall>w \<in> set ws. unat (snd w) \<le> length (fst w)"
  shows "\<exists>ss d' evs. write_seq d s0 ws = Inr (ss, d') \<and> length ss = length ws \<and>
           (\<forall>i < length ws. unat (ss ! i) = (unat s0 + Suc i) mod NUMBER_OF_SECTORS) \<and>
           trace d' = trace d @ evs \<and>
           (\<forall>j < NUMBER_OF_SECTORS.
              payload_writes evs j = length ws div NUMBER_OF_SECTORS \<or>
              payload_writes evs j = (length ws + NUMBER_OF_SECTORS - 1) div NUMBER_OF_SECTORS)"
proof -
  have s0: "unat s0 < NUMBER_OF_SECTORS"
    using assms(1) by (rule eeprom_sector_load_index)
  from write_seq_rotates [OF s0 assms(2), of d]
  obtain ss d' evs where run: "write_seq d s0 ws = Inr (ss, d')"
    and lss: "length ss = length ws"
    and idx: "\<forall>i < length ws. unat (ss ! i) = (unat s0 + Suc i) mod NUMBER_OF_SECTORS"
    and tr: "trace d' = trace d @ evs"
    and cnt: "\<forall>j < NUMBER_OF_SECTORS. payload_writes evs j = count_list (map unat ss) j"
    by blast
  have "map unat ss = map (\<lambda>i. (unat s0 + Suc i) mod NUMBER_OF_SECTORS) [0..<length ws]"
    using lss idx by (intro nth_equalityI) simp_all
  then have "payload_writes evs j = length ws div NUMBER_OF_SECTORS \<or>
      payload_writes evs j = (length ws + NUMBER_OF_SECTORS - 1) div NUMBER_OF_SECTORS"
    if "j < NUMBER_OF_SECTORS" for j
    using cnt that count_rotation_fair [OF that, of "unat s0" "length ws"] by simp
  with run lss idx tr show ?thesis by blast
qed

theorem writes_rotate_round_robin_witness:
  "\<exists>s0 d. eeprom_sector_load xmodem_le fresh_device (replicate 66 0xAA) 66 =
       Inr (s0, replicate 66 0xAA, d) \<and>
     (\<forall>w \<in> set [([1, 2], 2), ([3], 1), ([4, 5], 1), ([], 0), ([6, 7, 8 :: byte], 3 :: 32 word)].
        unat (snd w) \<le> length (fst w)) \<and>
     (\<exists>ss d' evs.
        write_seq d s0 [([1, 2], 2), ([3], 1), ([4, 5], 1), ([], 0), ([6, 7, 8], 3)] = Inr (ss, d') \<and>
        length ss = length [([1, 2], 2), ([3], 1), ([4, 5], 1), ([], 0), ([6, 7, 8 :: byte], 3 :: 32 word)] \<and>
        (\<forall>i < length [([1, 2], 2), ([3], 1), ([4, 5], 1), ([], 0), ([6, 7, 8 :: byte], 3 :: 32 word)].
           unat (ss ! i) = (unat s0 + Suc i) mod NUMBER_OF_SECTORS) \<and>
        trace d' = trace d @ evs \<and>
        (\<forall>j < NUMBER_OF_SECTORS.
           payload_writes evs j =
             length [([1, 2], 2), ([3], 1), ([4, 5], 1), ([], 0), ([6, 7, 8 :: byte], 3 :: 32 word)]
               div NUMBER_OF_SECTORS \<or>
           payload_writes evs j =
             (length [([1, 2], 2), ([3], 1), ([4, 5], 1), ([], 0), ([6, 7, 8 :: byte], 3 :: 32 word)]
               + NUMBER_OF_SECTORS - 1) div NUMBER_OF_SECTORS))"
proof -
  let ?ws = "[([1, 2], 2), ([3], 1), ([4, 5], 1), ([], 0), ([6, 7, 8 :: byte], 3 :: 32 word)]"
  obtain d where h1: "eeprom_sector_load xmodem_le fresh_device (replicate 66 0xAA) 66 =
      Inr (0, replicate 66 0xAA, d)"
    using seen_Inr [OF load_fresh_device_seen] by blast
  have h2: "\<forall>w \<in> set ?ws. unat (snd w) \<le> length (fst w)"
    by simp
  show ?thesis
    using writes_rotate_round_robin [OF h1 h2] h1 h2 by blast
qed

section \<open>Clearing sectors\<close>

lemma setting_sector_clear_eq:
  "s < NUMBER_OF_SECTORS \<Longrightarrow> setting_sector_clear d s = Inr (cleared d s)"
  by (simp add: setting_sector_clear_def cleared_def Let_def)

lemma trace_cleared: "trace (cleared d s) = trace d @ clear_events s"
  by (simp add: cleared_def clear_events_def)

lemma sizeof_le_capacity: "sizeof_struct_data_t \<le> 4094"
  by (simp add: sizeof_struct_data_t_def DATA_BYTES_def)

lemma status_of_cleared:
  assumes "s < NUMBER_OF_SECTORS" "j < NUMBER_OF_SECTORS"
  shows "status_of (cleared d s) j = (if j = s then SECTOR_INACTIVE else status_of d j)"
  using assms sizeof_le_capacity
  by (simp add: cleared_def status_of_write_payload status_of_write_status)

lemma payload_of_cleared_same:
  "payload_of (cleared d s) s sizeof_struct_data_t = replicate sizeof_struct_data_t 0"
proof -
  have "length (replicate sizeof_struct_data_t (0 :: byte)) \<le> 65536"
    using sizeof_le_capacity by simp
  from payload_of_write_payload_same [OF this] show ?thesis
    by (simp add: cleared_def)
qed

lemma payload_of_cleared_other:
  assumes "s < NUMBER_OF_SECTORS" "j < NUMBER_OF_SECTORS" "j \<noteq> s" "n \<le> 4094"
  shows "payload_of (cleared d s) j n = payload_of d j n"
  using assms sizeof_le_capacity
  by (simp add: cleared_def payload_of_write_payload_other payload_of_write_status)

lemma eeprom_all_sectors_clear_eq:
  "eeprom_all_sectors_clear d = Inr (cleared (cleared (cleared (cleared d 0) 1) 2) 3)"
proof -
  have s: "(0::nat) < NUMBER_OF_SECTORS" "(1::nat) < NUMBER_OF_SECTORS"
    "(2::nat) < NUMBER_OF_SECTORS" "(3::nat) < NUMBER_OF_SECTORS" "\<not> (4::nat) < NUMBER_OF_SECTORS"
    by (simp_all add: NUMBER_OF_SECTORS_def)
  have step: "eeprom_all_sectors_clear_loop d' i = eeprom_all_sectors_clear_loop (cleared d' i) (Suc i)"
    if "i < NUMBER_OF_SECTORS" for d' i
    using that
    by (subst eeprom_all_sectors_clear_loop.simps)
      (simp add: setting_system_state_clear_def setting_sector_clear_eq)
  have stop: "eeprom_all_sectors_clear_loop d' 4 = Inr d'" for d'
    using s(5) by (subst eeprom_all_sectors_clear_loop.simps) simp
  have "eeprom_all_sectors_clear d = eeprom_all_sectors_clear_loop (cleared d 0) 1"
    using step [OF s(1)] by (simp add: eeprom_all_sectors_clear_def)
  also have "\<dots> = eeprom_all_sectors_clear_loop (cleared (cleared d 0) 1) 2"
    using step [OF s(2)] by (simp add: numeral_2_eq_2)
  also have "\<dots> = eeprom_all_sectors_clear_loop (cleared (cleared (cleared d 0) 1) 2) 3"
    using step [OF s(3)] by (simp add: numeral_3_eq_3 numeral_2_eq_2)
  also have "\<dots> = eeprom_all_sectors_clear_loop (cleared (cleared (cleared (cleared d 0) 1) 2) 3) 4"
    using step [OF s(4)] by simp
  finally show ?thesis by (simp add: stop)
qed

lemma all_cleared_slot:
  assumes "j < NUMBER_OF_SECTORS"
  shows "status_of (cleared (cleared (cleared (cleared d 0) 1) 2) 3) j = SECTOR_INACTIVE \<and>
         payload_of (cleared (cleared (cleared (cleared d 0) 1) 2) 3) j sizeof_struct_data_t =
           replicate sizeof_struct_data_t 0"
proof -
  have s: "(0::nat) < NUMBER_OF_SECTORS" "(1::nat) < NUMBER_OF_SECTORS"
    "(2::nat) < NUMBER_OF_SECTORS" "(3::nat) < NUMBER_OF_SECTORS"
    by (simp_all add: NUMBER_OF_SECTORS_def)
  from assms consider "j = 0" | "j = 1" | "j = 2" | "j = 3"
    using sector_cases by blast
  then show ?thesis
    using s sizeof_le_capacity
    by cases
      (simp_all add: status_of_cleared payload_of_cleared_same payload_of_cleared_other)
qed

text \<open>
  Claim C9. \<open>setting_sector_clear\<close> on a slot writes status = inactive to the slot's
  status address and then \<open>sizeof(struct_data_t)\<close> zero bytes to its payload address.
  \<open>eeprom_all_sectors_clear\<close> does so for the slots 0, 1, 2, 3 in this order, and
  afterwards every slot has status = inactive and a zeroed payload.
\<close>

theorem clear_writes_inactive_and_zeros:
  "(\<forall>s < NUMBER_OF_SECTORS. \<exists>d'. setting_sector_clear d s = Inr d' \<and>
      trace d' = trace d @
        [Write (sector_status_address ! s) [SECTOR_INACTIVE],
         Write (sector_address ! s) (replicate sizeof_struct_data_t 0)]) \<and>
   (\<exists>d'. eeprom_all_sectors_clear d = Inr d' \<and>
      trace d' = trace d @ concat (map clear_events [0..<NUMBER_OF_SECTORS]) \<and>
      (\<forall>j < NUMBER_OF_SECTORS.
         status_of d' j = SECTOR_INACTIVE \<and>
         payload_of d' j sizeof_struct_data_t = replicate sizeof_struct_data_t 0))"
proof (intro conjI allI impI)
  fix s assume "s < NUMBER_OF_SECTORS"
  then show "\<exists>d'. setting_sector_clear d s = Inr d' \<and>
      trace d' = trace d @
        [Write (sector_status_address ! s) [SECTOR_INACTIVE],
         Write (sector_address ! s) (replicate sizeof_struct_data_t 0)]"
    by (simp add: setting_sector_clear_eq trace_cleared clear_events_def)
next
  let ?d' = "cleared (cleared (cleared (cleared d 0) 1) 2) 3"
  have "[0..<NUMBER_OF_SECTORS] = [0, 1, 2, 3]"
    by (simp add: NUMBER_OF_SECTORS_def upt_rec)
  then have "trace ?d' = trace d @ concat (map clear_events [0..<NUMBER_OF_SECTORS])"
    by (simp add: trace_cleared)
  then show "\<exists>d'. eeprom_all_sectors_clear d = Inr d' \<and>
      trace d' = trace d @ concat (map clear_events [0..<NUMBER_OF_SECTORS]) \<and>
      (\<forall>j < NUMBER_OF_SECTORS.
         status_of d' j = SECTOR_INACTIVE \<and>
         payload_of d' j sizeof_struct_data_t = replicate sizeof_struct_data_t 0)"
    using all_cleared_slot [of _ d] by (simp add: eeprom_all_sectors_clear_eq)
qed

theorem clear_writes_inactive_and_zeros_witness:
  "(\<exists>d'. setting_sector_clear fresh_device 2 = Inr d' \<and>
      trace d' = [Write 0x2000 [0], Write 0x2002 (replicate 66 0)]) \<and>
   (\<exists>d'. eeprom_all_sectors_clear fresh_device = Inr d' \<and>
      status_of d' 0 = 0 \<and> status_of d' 1 = 0 \<and> status_of d' 2 = 0 \<and> status_of d' 3 = 0 \<and>
      payload_of d' 0 66 = replicate 66 0 \<and> payload_of d' 1 66 = replicate 66 0 \<and>
      payload_of d' 2 66 = replicate 66 0 \<and> payload_of d' 3 66 = replicate 66 0)"
proof -
  have s: "(0::nat) < NUMBER_OF_SECTORS" "(1::nat) < NUMBER_OF_SECTORS"
    "(2::nat) < NUMBER_OF_SECTORS" "(3::nat) < NUMBER_OF_SECTORS"
    by (simp_all add: NUMBER_OF_SECTORS_def)
  have c: "sizeof_struct_data_t = 66" "SECTOR_INACTIVE = 0"
    by (simp_all add: sizeof_struct_data_t_def DATA_BYTES_def SECTOR_INACTIVE_def)
  from clear_writes_inactive_and_zeros [of fresh_device]
  have one: "\<forall>s < NUMBER_OF_SECTORS. \<exists>d'. setting_sector_clear fresh_device s = Inr d' \<and>
      trace d' = trace fresh_device @
        [Write (sector_status_address ! s) [SECTOR_INACTIVE],
         Write (sector_address ! s) (replicate sizeof_struct_data_t 0)]"
    and "\<exists>d'. eeprom_all_sectors_clear fresh_device = Inr d' \<and>
      trace d' = trace fresh_device @ concat (map clear_events [0..<NUMBER_OF_SECTORS]) \<and>
      (\<forall>j < NUMBER_OF_SECTORS.
         status_of d' j = SECTOR_INACTIVE \<and>
         payload_of d' j sizeof_struct_data_t = replicate sizeof_struct_data_t 0)"
    by blast+
  then obtain d' where all: "eeprom_all_sectors_clear fresh_device = Inr d'"
    and slots: "\<forall>j < NUMBER_OF_SECTORS.
         status_of d' j = SECTOR_INACTIVE \<and>
         payload_of d' j sizeof_struct_data_t = replicate sizeof_struct_data_t 0"
    by blast
  have "\<exists>d'. setting_sector_clear fresh_device 2 = Inr d' \<and>
      trace d' = [Write 0x2000 [0], Write 0x2002 (replicate 66 0)]"
    using one s(3)
    by (auto simp: c fresh_device_def sector_status_address_def sector_address_def)
  moreover have "status_of d' 0 = 0 \<and> status_of d' 1 = 0 \<and> status_of d' 2 = 0 \<and> status_of d' 3 = 0 \<and>
      payload_of d' 0 66 = replicate 66 0 \<and> payload_of d' 1 66 = replicate 66 0 \<and>
      payload_of d' 2 66 = replicate 66 0 \<and> payload_of d' 3 66 = replicate 66 0"
    using slots s unfolding c by blast
  ultimately show ?thesis using all by blast
qed

section \<open>The load loop: the first validating slot is returned\<close>

lemma scan_reads_trace [simp]: "scan_reads (d\<lparr>trace := t\<rparr>) sz = scan_reads d sz"
  by (rule ext) (simp add: scan_reads_def)

lemma staged_trace [simp]: "staged (d\<lparr>trace := t\<rparr>) sz i = staged d sz i"
  by (simp add: staged_def)

lemma validates_trace [simp]: "validates p (d\<lparr>trace := t\<rparr>) sz i = validates p d sz i"
  by (simp add: validates_def)

lemma length_staged:
  "unat sz \<le> sizeof_struct_data_t \<Longrightarrow> length (staged d sz i) = sizeof_struct_data_t"
  by (simp add: staged_def)

text \<open>
  The staging struct while the loop runs: 66 bytes, zero from offset \<open>size\<close> on.
\<close>

lemma staging_after_read:
  assumes "length sector = sizeof_struct_data_t"
    and "drop (unat sz) sector = replicate (sizeof_struct_data_t - unat sz) 0"
  shows "payload_of d i (unat sz) @ drop (unat sz) sector = staged d sz i"
  using assms by (simp add: staged_def)

lemma drop_staged:
  "drop (unat sz) (staged d sz i) = replicate (sizeof_struct_data_t - unat sz) 0"
  by (simp add: staged_def)

lemma take_staged:
  "take (unat sz) (staged d sz i) = payload_of d i (unat sz)"
  by (simp add: staged_def)

lemma size_minus_2:
  assumes "2 \<le> unat (sz :: 32 word)"
  shows "unat (sz - 2) = unat sz - 2"
proof -
  have "(2 :: 32 word) \<le> sz"
    using assms by (simp add: word_le_nat_alt)
  then show ?thesis by (simp add: unat_sub)
qed

lemma load_loop_skip:
  assumes "i < NUMBER_OF_SECTORS" "status_of d i \<noteq> SECTOR_ACTIVE"
  shows "load_loop p sz buffer i sector d =
    load_loop p sz buffer (Suc i) sector (d\<lparr>trace := trace d @ scan_reads d sz i\<rparr>)"
  using assms(2) by (simp add: load_loop_step [OF assms(1)])

lemma load_loop_reject:
  assumes "i < NUMBER_OF_SECTORS" "status_of d i = SECTOR_ACTIVE"
    and "2 \<le> unat sz" "unat sz \<le> sizeof_struct_data_t"
    and "length sector = sizeof_struct_data_t"
    and "drop (unat sz) sector = replicate (sizeof_struct_data_t - unat sz) 0"
    and "\<not> crc_matches p (staged d sz i) sz"
  shows "load_loop p sz buffer i sector d =
    load_loop p sz buffer (Suc i) (staged d sz i) (d\<lparr>trace := trace d @ scan_reads d sz i\<rparr>)"
proof -
  have st: "payload_of d i (unat sz) @ drop (unat sz) sector = staged d sz i"
    using assms(5,6) by (rule staging_after_read)
  have m2: "\<not> sizeof_struct_data_t < unat (sz - 2)"
    using assms(3,4) by (simp add: size_minus_2)
  show ?thesis
    using assms(2,4,7) m2 by (simp add: load_loop_step [OF assms(1)] st)
qed

lemma load_loop_accept:
  assumes "i < NUMBER_OF_SECTORS" "validates p d sz i"
    and "2 \<le> unat sz" "unat sz \<le> sizeof_struct_data_t" "unat sz \<le> length buffer"
    and "length sector = sizeof_struct_data_t"
    and "drop (unat sz) sector = replicate (sizeof_struct_data_t - unat sz) 0"
  shows "load_loop p sz buffer i sector d =
    Inr (Returned i (payload_of d i (unat sz) @ drop (unat sz) buffer)
          (d\<lparr>trace := trace d @ scan_reads d sz i\<rparr>))"
proof -
  have st: "payload_of d i (unat sz) @ drop (unat sz) sector = staged d sz i"
    using assms(6,7) by (rule staging_after_read)
  have m2: "\<not> sizeof_struct_data_t < unat (sz - 2)"
    using assms(3,4) by (simp add: size_minus_2)
  show ?thesis
    using assms(2,4,5) m2
    by (simp add: load_loop_step [OF assms(1)] st validates_def take_staged)
qed

lemma load_loop_finds:
  assumes sz: "2 \<le> unat sz" "unat sz \<le> sizeof_struct_data_t" "unat sz \<le> length buffer"
    and k: "k < NUMBER_OF_SECTORS" "i \<le> k" "validates p d sz k"
    and first: "\<forall>j. i \<le> j \<and> j < k \<longrightarrow> \<not> validates p d sz j"
    and staging: "length sector = sizeof_struct_data_t"
      "drop (unat sz) sector = replicate (sizeof_struct_data_t - unat sz) 0"
  shows "load_loop p sz buffer i sector d =
    Inr (Returned k (payload_of d k (unat sz) @ drop (unat sz) buffer)
          (d\<lparr>trace := trace d @ concat (map (scan_reads d sz) [i..<Suc k])\<rparr>))"
  using k(2,3) first staging
proof (induction "k - i" arbitrary: i sector d)
  case 0
  then have ik: "i = k" by simp
  show ?case
    using load_loop_accept [OF k(1) _ sz "0.prems"(4,5), of p d] "0.prems"(2)
    by (simp add: ik)
next
  case (Suc n)
  then have ik: "i < k" and n: "n = k - Suc i" by simp_all
  have i: "i < NUMBER_OF_SECTORS" using ik k(1) by simp
  have nv: "\<not> validates p d sz i" using Suc.prems(3) ik by simp
  have upt: "[i..<Suc k] = i # [Suc i..<Suc k]"
    using ik by (simp add: upt_conv_Cons)
  let ?d1 = "d\<lparr>trace := trace d @ scan_reads d sz i\<rparr>"
  have rest: "\<forall>j. Suc i \<le> j \<and> j < k \<longrightarrow> \<not> validates p ?d1 sz j"
    using Suc.prems(3) by simp
  have vk: "validates p ?d1 sz k" using Suc.prems(2) by simp
  have ik': "Suc i \<le> k" using ik by simp
  have "\<exists>sector'. length sector' = sizeof_struct_data_t \<and>
      drop (unat sz) sector' = replicate (sizeof_struct_data_t - unat sz) 0 \<and>
      load_loop p sz buffer i sector d = load_loop p sz buffer (Suc i) sector' ?d1"
  proof (cases "status_of d i = SECTOR_ACTIVE")
    case True
    with nv have nm: "\<not> crc_matches p (staged d sz i) sz" by (simp add: validates_def)
    have "load_loop p sz buffer i sector d = load_loop p sz buffer (Suc i) (staged d sz i) ?d1"
      using i True sz(1,2) Suc.prems(4,5) nm by (rule load_loop_reject)
    then show ?thesis
      using length_staged [OF sz(2)] drop_staged by blast
  next
    case False
    have "load_loop p sz buffer i sector d = load_loop p sz buffer (Suc i) sector ?d1"
      using i False by (rule load_loop_skip)
    then show ?thesis using Suc.prems(4,5) by blast
  qed
  then obtain sector' where s': "length sector' = sizeof_struct_data_t"
      "drop (unat sz) sector' = replicate (sizeof_struct_data_t - unat sz) 0"
    and step: "load_loop p sz buffer i sector d = load_loop p sz buffer (Suc i) sector' ?d1"
    by blast
  have "load_loop p sz buffer (Suc i) sector' ?d1 =
      Inr (Returned k (payload_of ?d1 k (unat sz) @ drop (unat sz) buffer)
          (?d1\<lparr>trace := trace ?d1 @ concat (map (scan_reads ?d1 sz) [Suc i..<Suc k])\<rparr>))"
    using n ik' vk rest s' by (rule Suc.hyps(1))
  moreover have "?d1\<lparr>trace := trace ?d1 @ concat (map (scan_reads ?d1 sz) [Suc i..<Suc k])\<rparr> =
      d\<lparr>trace := trace d @ concat (map (scan_reads d sz) [i..<Suc k])\<rparr>"
    unfolding upt by simp
  ultimately show ?case using step by simp
qed

section \<open>The two paths of load\<close>

lemma staging_after_trace [simp]:
  "staging_after (d\<lparr>trace := t\<rparr>) sz = staging_after d sz"
  by (intro ext) (simp add: staging_after_def cong: if_cong)

lemma load_loop_falls_through:
  assumes sz: "2 \<le> unat sz" "unat sz \<le> sizeof_struct_data_t"
    and none: "\<forall>j. i \<le> j \<and> j < NUMBER_OF_SECTORS \<longrightarrow> \<not> validates p d sz j"
    and staging: "length sector = sizeof_struct_data_t"
      "drop (unat sz) sector = replicate (sizeof_struct_data_t - unat sz) 0"
  shows "load_loop p sz buffer i sector d =
    Inr (Fell_Through (staging_after d sz sector [i..<NUMBER_OF_SECTORS])
          (d\<lparr>trace := trace d @ concat (map (scan_reads d sz) [i..<NUMBER_OF_SECTORS])\<rparr>))"
  using none staging
proof (induction "NUMBER_OF_SECTORS - i" arbitrary: i sector d)
  case 0
  then have "\<not> i < NUMBER_OF_SECTORS" by simp
  then show ?case by (simp add: load_loop_done staging_after_def)
next
  case (Suc n)
  then have i: "i < NUMBER_OF_SECTORS" and n: "n = NUMBER_OF_SECTORS - Suc i" by simp_all
  have nv: "\<not> validates p d sz i" using Suc.prems(1) i by simp
  have upt: "[i..<NUMBER_OF_SECTORS] = i # [Suc i..<NUMBER_OF_SECTORS]"
    using i by (simp add: upt_conv_Cons)
  let ?d1 = "d\<lparr>trace := trace d @ scan_reads d sz i\<rparr>"
  let ?s1 = "if status_of d i = SECTOR_ACTIVE then staged d sz i else sector"
  have rest: "\<forall>j. Suc i \<le> j \<and> j < NUMBER_OF_SECTORS \<longrightarrow> \<not> validates p ?d1 sz j"
    using Suc.prems(1) by simp
  have step: "load_loop p sz buffer i sector d = load_loop p sz buffer (Suc i) ?s1 ?d1"
  proof (cases "status_of d i = SECTOR_ACTIVE")
    case True
    with nv have nm: "\<not> crc_matches p (staged d sz i) sz" by (simp add: validates_def)
    have "load_loop p sz buffer i sector d = load_loop p sz buffer (Suc i) (staged d sz i) ?d1"
      using i True sz(1,2) Suc.prems(2,3) nm by (rule load_loop_reject)
    with True show ?thesis by simp
  next
    case False
    have "load_loop p sz buffer i sector d = load_loop p sz buffer (Suc i) sector ?d1"
      using i False by (rule load_loop_skip)
    with False show ?thesis by simp
  qed
  have s1: "length ?s1 = sizeof_struct_data_t"
    "drop (unat sz) ?s1 = replicate (sizeof_struct_data_t - unat sz) 0"
    using Suc.prems(2,3) length_staged [OF sz(2)] drop_staged by simp_all
  have "load_loop p sz buffer (Suc i) ?s1 ?d1 =
      Inr (Fell_Through (staging_after ?d1 sz ?s1 [Suc i..<NUMBER_OF_SECTORS])
          (?d1\<lparr>trace := trace ?d1 @ concat (map (scan_reads ?d1 sz) [Suc i..<NUMBER_OF_SECTORS])\<rparr>))"
    using n rest s1 by (rule Suc.hyps(1))
  moreover have "staging_after ?d1 sz ?s1 [Suc i..<NUMBER_OF_SECTORS] =
      staging_after d sz sector [i..<NUMBER_OF_SECTORS]"
    unfolding upt by (simp add: staging_after_def)
  moreover have "?d1\<lparr>trace := trace ?d1 @ concat (map (scan_reads ?d1 sz) [Suc i..<NUMBER_OF_SECTORS])\<rparr> =
      d\<lparr>trace := trace d @ concat (map (scan_reads d sz) [i..<NUMBER_OF_SECTORS])\<rparr>"
    unfolding upt by simp
  ultimately show ?case using step by simp
qed

lemma length_staging_after:
  assumes "unat sz \<le> sizeof_struct_data_t" "length sector = sizeof_struct_data_t"
  shows "length (staging_after d sz sector js) = sizeof_struct_data_t"
  using assms(2)
  by (induction js arbitrary: sector) (simp_all add: staging_after_def length_staged [OF assms(1)])

lemma staging_after_none_active:
  "\<forall>j \<in> set js. status_of d j \<noteq> SECTOR_ACTIVE \<Longrightarrow> staging_after d sz sector js = sector"
  by (induction js arbitrary: sector) (simp_all add: staging_after_def)

text \<open>What \<open>eeprom_sector_load\<close> does on each of its two paths.\<close>

lemma load_returns_first:
  assumes sz: "2 \<le> unat sz" "unat sz \<le> sizeof_struct_data_t" "unat sz \<le> length buffer"
    and k: "k < NUMBER_OF_SECTORS" "validates p d sz k"
    and first: "\<forall>j < k. \<not> validates p d sz j"
  shows "eeprom_sector_load p d buffer sz =
    Inr (of_nat k, payload_of d k (unat sz) @ drop (unat sz) buffer,
         d\<lparr>trace := trace d @ concat (map (scan_reads d sz) [0..<Suc k])\<rparr>)"
proof -
  have "load_loop p sz buffer 0 (replicate sizeof_struct_data_t 0) d =
    Inr (Returned k (payload_of d k (unat sz) @ drop (unat sz) buffer)
          (d\<lparr>trace := trace d @ concat (map (scan_reads d sz) [0..<Suc k])\<rparr>))"
    using sz k(1) _ k(2) by (rule load_loop_finds) (use first in simp_all)
  then show ?thesis by (simp add: eeprom_sector_load_def)
qed

lemma load_bootstraps:
  assumes sz: "2 \<le> unat sz" "unat sz \<le> sizeof_struct_data_t"
    and none: "\<forall>k < NUMBER_OF_SECTORS. \<not> validates p d sz k"
  shows "eeprom_sector_load p d buffer sz =
    Inr (0, buffer,
         bootstrapped (d\<lparr>trace := trace d @ concat (map (scan_reads d sz) [0..<NUMBER_OF_SECTORS])\<rparr>)
           (take (unat sz)
              (staging_after d sz (replicate sizeof_struct_data_t 0) [0..<NUMBER_OF_SECTORS])))"
proof -
  have "load_loop p sz buffer 0 (replicate sizeof_struct_data_t 0) d =
    Inr (Fell_Through (staging_after d sz (replicate sizeof_struct_data_t 0) [0..<NUMBER_OF_SECTORS])
          (d\<lparr>trace := trace d @ concat (map (scan_reads d sz) [0..<NUMBER_OF_SECTORS])\<rparr>))"
    using sz by (rule load_loop_falls_through) (use none in simp_all)
  then show ?thesis
    using sz(2)
    by (simp add: eeprom_sector_load_def eeprom_all_sectors_clear_eq bootstrapped_def Let_def)
qed

section \<open>Full-size records; a device with two valid slots\<close>

lemma writes_of_scan_reads: "writes_of (concat (map (scan_reads d sz) js)) = []"
  by (induction js) (simp_all add: writes_of_def scan_reads_def)

lemma writes_of_append: "writes_of (xs @ ys) = writes_of xs @ writes_of ys"
  by (simp add: writes_of_def)

lemma staged_full:
  "unat sz = sizeof_struct_data_t \<Longrightarrow> staged d sz i = payload_of d i sizeof_struct_data_t"
  by (simp add: staged_def)

lemma unat_66: "unat (66 :: 32 word) = sizeof_struct_data_t"
  by (simp add: sizeof_struct_data_t_def DATA_BYTES_def)

lemma crc_matches_full_record:
  assumes "length bs = sizeof_struct_data_t"
  shows "crc_matches p bs 66 \<longleftrightarrow> trailing_crc_ok p bs"
  using assms
  by (simp add: crc_matches_def trailing_crc_ok_def struct_crc_def sizeof_struct_data_t_def
      DATA_BYTES_def)

lemma validates_full_record:
  "validates p d 66 i \<longleftrightarrow>
     status_of d i = SECTOR_ACTIVE \<and> trailing_crc_ok p (payload_of d i sizeof_struct_data_t)"
  by (simp add: validates_def staged_full [OF unat_66] crc_matches_full_record)

lemma length_record_1_to_64: "length record_1_to_64 = sizeof_struct_data_t"
  by (simp add: record_1_to_64_def sizeof_struct_data_t_def DATA_BYTES_def)

lemma two_valid_slots:
  "status_of two_valid 0 = SECTOR_INACTIVE"
  "status_of two_valid 1 = SECTOR_ACTIVE"
  "status_of two_valid 3 = SECTOR_ACTIVE"
  "payload_of two_valid 1 sizeof_struct_data_t = record_1_to_64"
  "payload_of two_valid 3 sizeof_struct_data_t = record_1_to_64"
proof -
  have s: "(0::nat) < NUMBER_OF_SECTORS" "(1::nat) < NUMBER_OF_SECTORS"
    "(3::nat) < NUMBER_OF_SECTORS"
    by (simp_all add: NUMBER_OF_SECTORS_def)
  have l: "length record_1_to_64 \<le> 4094"
    using sizeof_le_capacity by (simp add: length_record_1_to_64)
  show "status_of two_valid 0 = SECTOR_INACTIVE"
    unfolding two_valid_def using s l by (simp add: status_of_rotated)
  show "status_of two_valid 1 = SECTOR_ACTIVE"
    unfolding two_valid_def using s l by (simp add: status_of_rotated)
  show "status_of two_valid 3 = SECTOR_ACTIVE"
    unfolding two_valid_def using s l by (simp add: status_of_rotated)
  show "payload_of two_valid 1 sizeof_struct_data_t = record_1_to_64"
    unfolding two_valid_def
    using payload_of_rotated_new [OF l, of "rotated slot0_active record_1_to_64 0 3" 0 1]
    by (simp add: length_record_1_to_64)
  have "payload_of two_valid 3 sizeof_struct_data_t =
      payload_of (rotated slot0_active record_1_to_64 0 3) 3 sizeof_struct_data_t"
    unfolding two_valid_def using s l sizeof_le_capacity
    by (intro payload_of_rotated_other) simp_all
  then show "payload_of two_valid 3 sizeof_struct_data_t = record_1_to_64"
    using payload_of_rotated_new [OF l, of slot0_active 0 3]
    by (simp add: length_record_1_to_64)
qed

lemma two_valid_validates:
  "\<not> validates xmodem_le two_valid 66 0"
  "validates xmodem_le two_valid 66 1"
  "validates xmodem_le two_valid 66 3"
  using two_valid_slots
  by (simp_all add: validates_full_record trailing_crc_record_1_to_64
      SECTOR_ACTIVE_def SECTOR_INACTIVE_def)

text \<open>
  Claim C10. When some slot is active and passes the CRC test (size within the staging
  struct, buffer large enough), \<open>eeprom_sector_load\<close> returns without a single transport
  write, and the memory of the device is what it was before the call.
\<close>

theorem load_of_valid_slot_writes_nothing:
  assumes "2 \<le> unat sz" "unat sz \<le> sizeof_struct_data_t" "unat sz \<le> length buffer"
    and "k < NUMBER_OF_SECTORS" "validates p d sz k"
  shows "\<exists>s buffer' d'. eeprom_sector_load p d buffer sz = Inr (s, buffer', d') \<and>
           mem d' = mem d \<and> writes_of (trace d') = writes_of (trace d)"
proof -
  have "\<exists>j. j < NUMBER_OF_SECTORS \<and> validates p d sz j"
    using assms(4,5) by blast
  then have "\<exists>k0. (k0 < NUMBER_OF_SECTORS \<and> validates p d sz k0) \<and>
      (\<forall>j < k0. \<not> (j < NUMBER_OF_SECTORS \<and> validates p d sz j))"
    by (subst (asm) exists_least_iff)
  then obtain k0 where k0: "k0 < NUMBER_OF_SECTORS" "validates p d sz k0"
    and least: "\<forall>j < k0. \<not> (j < NUMBER_OF_SECTORS \<and> validates p d sz j)"
    by blast
  have first: "\<forall>j < k0. \<not> validates p d sz j"
    using least k0(1) by auto
  let ?d' = "d\<lparr>trace := trace d @ concat (map (scan_reads d sz) [0..<Suc k0])\<rparr>"
  have run: "eeprom_sector_load p d buffer sz =
    Inr (of_nat k0, payload_of d k0 (unat sz) @ drop (unat sz) buffer, ?d')"
    using assms(1,2,3) k0 first by (rule load_returns_first)
  have w: "writes_of (trace ?d') = writes_of (trace d)"
    by (simp add: writes_of_append writes_of_scan_reads del: upt_Suc)
  have m: "mem ?d' = mem d" by simp
  from run m w show ?thesis by blast
qed

theorem load_of_valid_slot_writes_nothing_witness:
  "validates xmodem_le two_valid 66 3 \<and>
   (\<exists>s buffer' d'. eeprom_sector_load xmodem_le two_valid (replicate 66 0) 66 = Inr (s, buffer', d') \<and>
      mem d' = mem two_valid \<and> writes_of (trace d') = writes_of (trace two_valid))"
proof -
  have h: "2 \<le> unat (66 :: 32 word)" "unat (66 :: 32 word) \<le> sizeof_struct_data_t"
    "unat (66 :: 32 word) \<le> length (replicate 66 (0 :: byte))" "(3 :: nat) < NUMBER_OF_SECTORS"
    by (simp_all add: sizeof_struct_data_t_def DATA_BYTES_def NUMBER_OF_SECTORS_def)
  show ?thesis
    using load_of_valid_slot_writes_nothing [OF h two_valid_validates(3)] two_valid_validates(3)
    by (intro conjI)
qed

section \<open>Write, then load\<close>

lemma all_sectors:
  "(\<forall>k < NUMBER_OF_SECTORS. P k) \<longleftrightarrow> P 0 \<and> P 1 \<and> P 2 \<and> P 3"
proof
  assume "\<forall>k < NUMBER_OF_SECTORS. P k"
  then show "P 0 \<and> P 1 \<and> P 2 \<and> P 3" by (simp add: NUMBER_OF_SECTORS_def)
next
  assume a: "P 0 \<and> P 1 \<and> P 2 \<and> P 3"
  show "\<forall>k < NUMBER_OF_SECTORS. P k"
  proof (intro allI impI)
    fix k assume "k < NUMBER_OF_SECTORS"
    then have "k = 0 \<or> k = 1 \<or> k = 2 \<or> k = 3" by (rule sector_cases)
    with a show "P k" by auto
  qed
qed

lemma upt_sectors: "[0..<NUMBER_OF_SECTORS] = [0, 1, 2, 3]"
  by (simp add: NUMBER_OF_SECTORS_def upt_rec)

lemma crc16_short_record: "crc16_xmodem [0x31, 0x32] = 0x20B5"
  by (simp add: crc16_xmodem_def crc16_update_def crc16_shift_def)

lemma trailing_crc_short_record: "trailing_crc_ok xmodem_le short_record"
  by (simp add: trailing_crc_ok_def short_record_def xmodem_le_def crc16_short_record
      u16_of_bytes_def)

lemma short_record_rejected:
  "\<not> crc_matches xmodem_le (short_record @ replicate (sizeof_struct_data_t - 4) 0) 4"
  by (simp add: crc_matches_def struct_crc_def short_record_def xmodem_le_def
      crc16_short_record u16_of_bytes_def sizeof_struct_data_t_def DATA_BYTES_def
      nth_append nth_Cons')

lemma short_written_slots:
  "status_of (rotated slot0_active short_record 0 1) 0 \<noteq> SECTOR_ACTIVE"
  "status_of (rotated slot0_active short_record 0 1) 1 = SECTOR_ACTIVE"
  "status_of (rotated slot0_active short_record 0 1) 2 \<noteq> SECTOR_ACTIVE"
  "status_of (rotated slot0_active short_record 0 1) 3 \<noteq> SECTOR_ACTIVE"
  "payload_of (rotated slot0_active short_record 0 1) 1 4 = short_record"
proof -
  have s: "(0::nat) < NUMBER_OF_SECTORS" "(1::nat) < NUMBER_OF_SECTORS"
    "(2::nat) < NUMBER_OF_SECTORS" "(3::nat) < NUMBER_OF_SECTORS"
    by (simp_all add: NUMBER_OF_SECTORS_def)
  have l: "length short_record \<le> 4094" "length short_record = 4"
    by (simp_all add: short_record_def)
  have st: "status_of (rotated slot0_active short_record 0 1) j =
      (if j = 1 then SECTOR_ACTIVE else if j = 0 then SECTOR_INACTIVE else status_of slot0_active j)"
    if "j < NUMBER_OF_SECTORS" for j
    using s(1,2) that l(1) by (rule status_of_rotated)
  show "status_of (rotated slot0_active short_record 0 1) 0 \<noteq> SECTOR_ACTIVE"
    using st [OF s(1)] by (simp add: SECTOR_ACTIVE_def SECTOR_INACTIVE_def)
  show "status_of (rotated slot0_active short_record 0 1) 1 = SECTOR_ACTIVE"
    using st [OF s(2)] by simp
  show "status_of (rotated slot0_active short_record 0 1) 2 \<noteq> SECTOR_ACTIVE"
    using slot0_active_statuses [OF s(3)] st [OF s(3)] by simp
  show "status_of (rotated slot0_active short_record 0 1) 3 \<noteq> SECTOR_ACTIVE"
    using slot0_active_statuses [OF s(4)] st [OF s(4)] by simp
  show "payload_of (rotated slot0_active short_record 0 1) 1 4 = short_record"
    using payload_of_rotated_new [OF l(1), of slot0_active 0 1] by (simp add: l(2))
qed

lemma short_written_none_validates:
  "\<forall>k < NUMBER_OF_SECTORS. \<not> validates xmodem_le (rotated slot0_active short_record 0 1) 4 k"
  using short_written_slots short_record_rejected
  by (simp add: all_sectors validates_def staged_def)

lemma load_short_written:
  "seen (eeprom_sector_load xmodem_le (rotated slot0_active short_record 0 1) [0, 0, 0, 0] 4) =
     Inr (0, [0, 0, 0, 0])"
proof -
  have "2 \<le> unat (4 :: 32 word)" "unat (4 :: 32 word) \<le> sizeof_struct_data_t"
    by (simp_all add: sizeof_struct_data_t_def DATA_BYTES_def)
  from load_bootstraps [OF this short_written_none_validates] show ?thesis
    by (simp add: seen_def)
qed

lemma write_short_record:
  "eeprom_sector_write slot0_active short_record 4 0 =
     Inr (1, rotated slot0_active short_record 0 1)"
proof -
  have "unat (0 :: 8 word) < NUMBER_OF_SECTORS" "unat (4 :: 32 word) \<le> length short_record"
    by (simp_all add: NUMBER_OF_SECTORS_def short_record_def)
  from eeprom_sector_write_eq [OF this, of slot0_active] show ?thesis
    by (simp add: NUMBER_OF_SECTORS_def short_record_def)
qed

text \<open>
  Claim C1 as stated, for a buffer of any size with a correct trailing CRC, does not
  hold: \<open>eeprom_sector_load\<close> compares the CRC with the \<open>crc\<close> field of
  \<open>struct_data_t\<close>, which lies at byte offsets 64 and 65 whatever \<open>size\<close> is. With
  exactly slot 0 active, the 4-byte record 0x31 0x32 0xB5 0x20 (its last two bytes are
  the CRC of the first two) is written to slot 1 and the write returns 1; the load of
  size 4 that follows rejects slot 1, takes the recovery path, returns 0 and leaves the
  output buffer as it was.
\<close>

theorem write_then_load_short_record_counterexample:
  "status_of slot0_active 0 = SECTOR_ACTIVE \<and> status_of slot0_active 1 \<noteq> SECTOR_ACTIVE \<and>
   status_of slot0_active 2 \<noteq> SECTOR_ACTIVE \<and> status_of slot0_active 3 \<noteq> SECTOR_ACTIVE \<and>
   length short_record = 4 \<and> trailing_crc_ok xmodem_le short_record \<and>
   write_then_load xmodem_le slot0_active short_record 4 0 [0, 0, 0, 0] = Inr (1, 0, [0, 0, 0, 0])"
proof -
  obtain d where "eeprom_sector_load xmodem_le (rotated slot0_active short_record 0 1) [0, 0, 0, 0] 4 =
      Inr (0, [0, 0, 0, 0], d)"
    using seen_Inr [OF load_short_written] by blast
  then have "write_then_load xmodem_le slot0_active short_record 4 0 [0, 0, 0, 0] = Inr (1, 0, [0, 0, 0, 0])"
    by (simp add: write_then_load_def write_short_record)
  moreover have "status_of slot0_active 0 = SECTOR_ACTIVE \<and> status_of slot0_active 1 \<noteq> SECTOR_ACTIVE \<and>
      status_of slot0_active 2 \<noteq> SECTOR_ACTIVE \<and> status_of slot0_active 3 \<noteq> SECTOR_ACTIVE"
    by (simp add: slot0_active_statuses NUMBER_OF_SECTORS_def)
  ultimately show ?thesis
    using trailing_crc_short_record by (simp add: short_record_def)
qed

text \<open>
  Claim C1, amended to the size of the struct. Let exactly one slot, \<open>current_sector\<close>,
  be active, and let the buffer be a record of \<open>sizeof(struct_data_t)\<close> = 66 bytes whose
  last two bytes are the CRC-16 of its first 64. Then \<open>eeprom_sector_write\<close> with size 66
  followed by \<open>eeprom_sector_load\<close> with size 66 puts the 66 bytes of the record into
  the output buffer, and the load returns the slot index the write returned,
  (current_sector + 1) mod 4.
\<close>

theorem write_then_load_full_record_roundtrip:
  assumes cs: "unat current_sector < NUMBER_OF_SECTORS"
    and one: "\<forall>j < NUMBER_OF_SECTORS. status_of d j = SECTOR_ACTIVE \<longleftrightarrow> j = unat current_sector"
    and len: "length buffer = sizeof_struct_data_t"
    and crc: "trailing_crc_ok p buffer"
    and out: "sizeof_struct_data_t \<le> length out"
  shows "write_then_load p d buffer 66 current_sector out =
    Inr (of_nat ((unat current_sector + 1) mod NUMBER_OF_SECTORS),
         of_nat ((unat current_sector + 1) mod NUMBER_OF_SECTORS),
         buffer @ drop sizeof_struct_data_t out)"
proof -
  let ?old = "unat current_sector"
  let ?new = "(unat current_sector + 1) mod NUMBER_OF_SECTORS"
  let ?d1 = "rotated d buffer ?old ?new"
  have new: "?new < NUMBER_OF_SECTORS" by (rule next_sector_less)
  have fits: "length buffer \<le> 4094" using len sizeof_le_capacity by simp
  have "unat (66 :: 32 word) \<le> length buffer"
    using len by (simp add: sizeof_struct_data_t_def DATA_BYTES_def)
  with cs have "eeprom_sector_write d buffer 66 current_sector =
      Inr (of_nat ?new, rotated d (take (unat (66 :: 32 word)) buffer) ?old ?new)"
    by (rule eeprom_sector_write_eq)
  then have w: "eeprom_sector_write d buffer 66 current_sector = Inr (of_nat ?new, ?d1)"
    using len by (simp add: sizeof_struct_data_t_def DATA_BYTES_def)
  have st: "status_of ?d1 j = SECTOR_ACTIVE \<longleftrightarrow> j = ?new" if "j < NUMBER_OF_SECTORS" for j
  proof -
    have "status_of ?d1 j =
        (if j = ?new then SECTOR_ACTIVE else if j = ?old then SECTOR_INACTIVE else status_of d j)"
      using cs new that fits by (rule status_of_rotated)
    moreover have "status_of d j \<noteq> SECTOR_ACTIVE" if "j \<noteq> ?old"
      using one \<open>j < NUMBER_OF_SECTORS\<close> that by blast
    ultimately show ?thesis
      by (simp add: SECTOR_ACTIVE_def SECTOR_INACTIVE_def)
  qed
  have pl: "payload_of ?d1 ?new sizeof_struct_data_t = buffer"
    using payload_of_rotated_new [OF fits, of d ?old ?new] by (simp add: len)
  have v: "validates p ?d1 66 ?new"
    using st [OF new] pl crc by (simp add: validates_full_record)
  have first: "\<forall>j < ?new. \<not> validates p ?d1 66 j"
  proof (intro allI impI)
    fix j assume j: "j < ?new"
    then have "j < NUMBER_OF_SECTORS" using new by simp
    from st [OF this] j show "\<not> validates p ?d1 66 j"
      by (simp add: validates_full_record)
  qed
  have sz: "2 \<le> unat (66 :: 32 word)" "unat (66 :: 32 word) \<le> sizeof_struct_data_t"
    "unat (66 :: 32 word) \<le> length out"
    using out by (simp_all add: sizeof_struct_data_t_def DATA_BYTES_def)
  have "eeprom_sector_load p ?d1 out 66 =
      Inr (of_nat ?new, payload_of ?d1 ?new (unat (66 :: 32 word)) @ drop (unat (66 :: 32 word)) out,
        ?d1\<lparr>trace := trace ?d1 @ concat (map (scan_reads ?d1 66) [0..<Suc ?new])\<rparr>)"
    using sz new v first by (rule load_returns_first)
  then have "eeprom_sector_load p ?d1 out 66 =
      Inr (of_nat ?new, buffer @ drop sizeof_struct_data_t out,
        ?d1\<lparr>trace := trace ?d1 @ concat (map (scan_reads ?d1 66) [0..<Suc ?new])\<rparr>)"
    using pl by (simp only: unat_66)
  with w show ?thesis
    by (simp add: write_then_load_def)
qed

theorem write_then_load_full_record_roundtrip_witness:
  "status_of slot0_active 0 = SECTOR_ACTIVE \<and> status_of slot0_active 1 \<noteq> SECTOR_ACTIVE \<and>
   status_of slot0_active 2 \<noteq> SECTOR_ACTIVE \<and> status_of slot0_active 3 \<noteq> SECTOR_ACTIVE \<and>
   length record_1_to_64 = 66 \<and> trailing_crc_ok xmodem_le record_1_to_64 \<and>
   write_then_load xmodem_le slot0_active record_1_to_64 66 0 (replicate 66 0) =
     Inr (1, 1, record_1_to_64)"
proof -
  have h1: "unat (0 :: 8 word) < NUMBER_OF_SECTORS"
    by (simp add: NUMBER_OF_SECTORS_def)
  have h2: "\<forall>j < NUMBER_OF_SECTORS. status_of slot0_active j = SECTOR_ACTIVE \<longleftrightarrow> j = unat (0 :: 8 word)"
    by (simp add: slot0_active_statuses)
  have h5: "sizeof_struct_data_t \<le> length (replicate 66 (0 :: byte))"
    by (simp add: sizeof_struct_data_t_def DATA_BYTES_def)
  have st: "status_of slot0_active 0 = SECTOR_ACTIVE \<and> status_of slot0_active 1 \<noteq> SECTOR_ACTIVE \<and>
      status_of slot0_active 2 \<noteq> SECTOR_ACTIVE \<and> status_of slot0_active 3 \<noteq> SECTOR_ACTIVE"
    by (simp add: slot0_active_statuses NUMBER_OF_SECTORS_def)
  show ?thesis
    using st length_record_1_to_64 trailing_crc_record_1_to_64
      write_then_load_full_record_roundtrip
        [OF h1 h2 length_record_1_to_64 trailing_crc_record_1_to_64 h5]
    by (simp add: NUMBER_OF_SECTORS_def sizeof_struct_data_t_def DATA_BYTES_def)
qed

section \<open>The CRC test\<close>

lemma load_loop_total:
  assumes sz: "2 \<le> unat sz" "unat sz \<le> sizeof_struct_data_t" "unat sz \<le> length buffer"
  shows "(\<exists>k0. k0 < NUMBER_OF_SECTORS \<and> validates p d sz k0 \<and> (\<forall>j < k0. \<not> validates p d sz j) \<and>
            load_loop p sz buffer 0 (replicate sizeof_struct_data_t 0) d =
              Inr (Returned k0 (payload_of d k0 (unat sz) @ drop (unat sz) buffer)
                (d\<lparr>trace := trace d @ concat (map (scan_reads d sz) [0..<Suc k0])\<rparr>))) \<or>
         ((\<forall>k < NUMBER_OF_SECTORS. \<not> validates p d sz k) \<and>
            (\<exists>sector d'. load_loop p sz buffer 0 (replicate sizeof_struct_data_t 0) d =
              Inr (Fell_Through sector d')))"
proof (cases "\<exists>j. j < NUMBER_OF_SECTORS \<and> validates p d sz j")
  case True
  then have "\<exists>k0. (k0 < NUMBER_OF_SECTORS \<and> validates p d sz k0) \<and>
      (\<forall>j < k0. \<not> (j < NUMBER_OF_SECTORS \<and> validates p d sz j))"
    by (subst (asm) exists_least_iff)
  then obtain k0 where k0: "k0 < NUMBER_OF_SECTORS" "validates p d sz k0"
    and least: "\<forall>j < k0. \<not> (j < NUMBER_OF_SECTORS \<and> validates p d sz j)"
    by blast
  have first: "\<forall>j < k0. \<not> validates p d sz j"
    using least k0(1) by auto
  have "load_loop p sz buffer 0 (replicate sizeof_struct_data_t 0) d =
    Inr (Returned k0 (payload_of d k0 (unat sz) @ drop (unat sz) buffer)
          (d\<lparr>trace := trace d @ concat (map (scan_reads d sz) [0..<Suc k0])\<rparr>))"
    using sz k0(1) _ k0(2) by (rule load_loop_finds) (use first in simp_all)
  with k0 first show ?thesis by blast
next
  case False
  then have none: "\<forall>k < NUMBER_OF_SECTORS. \<not> validates p d sz k" by blast
  have "load_loop p sz buffer 0 (replicate sizeof_struct_data_t 0) d =
    Inr (Fell_Through (staging_after d sz (replicate sizeof_struct_data_t 0) [0..<NUMBER_OF_SECTORS])
          (d\<lparr>trace := trace d @ concat (map (scan_reads d sz) [0..<NUMBER_OF_SECTORS])\<rparr>))"
    using sz(1,2) by (rule load_loop_falls_through) (use none in simp_all)
  with none show ?thesis by blast
qed

text \<open>
  Claim C6 as stated, for every size, does not hold. On a device whose slot 1 is active
  and holds the 4-byte record 0x31 0x32 0xB5 0x20, the last two bytes are the CRC of the
  first two; yet a load of size 4 does not accept the slot: it compares the CRC with
  bytes 64 and 65 of the staging struct, which are zero, takes the recovery path and
  returns 0 with the buffer untouched.
\<close>

theorem crc_check_short_record_counterexample:
  "status_of (rotated slot0_active short_record 0 1) 1 = SECTOR_ACTIVE \<and>
   payload_of (rotated slot0_active short_record 0 1) 1 4 = short_record \<and>
   trailing_crc_ok xmodem_le short_record \<and>
   seen (eeprom_sector_load xmodem_le (rotated slot0_active short_record 0 1) [0, 0, 0, 0] 4) =
     Inr (0, [0, 0, 0, 0])"
  using short_written_slots(2,5) trailing_crc_short_record load_short_written by simp

text \<open>
  Claim C6, amended to the size of the struct. For size 66 = \<open>sizeof(struct_data_t)\<close>
  the CRC test of \<open>eeprom_sector_load\<close> recomputes the CRC-16 over the first 64 bytes of
  the 66-byte blob read from the slot's payload address and compares it with the last
  two bytes of that blob. For the first active slot \<open>k\<close> of a device, the loop returns
  from inside at \<open>k\<close> exactly when the two agree.
\<close>

theorem crc_check_covers_full_record:
  assumes k: "k < NUMBER_OF_SECTORS" "status_of d k = SECTOR_ACTIVE"
    and before: "\<forall>j < k. status_of d j \<noteq> SECTOR_ACTIVE"
    and len: "sizeof_struct_data_t \<le> length buffer"
  shows "(\<exists>buffer' d'. load_loop p 66 buffer 0 (replicate sizeof_struct_data_t 0) d =
            Inr (Returned k buffer' d')) \<longleftrightarrow>
         calculate_crc16 p (take (sizeof_struct_data_t - 2) (payload_of d k sizeof_struct_data_t)) =
           u16_of_bytes (big_endian p)
             (payload_of d k sizeof_struct_data_t ! (sizeof_struct_data_t - 2))
             (payload_of d k sizeof_struct_data_t ! (sizeof_struct_data_t - 1))"
proof -
  have sz: "2 \<le> unat (66 :: 32 word)" "unat (66 :: 32 word) \<le> sizeof_struct_data_t"
    "unat (66 :: 32 word) \<le> length buffer"
    using len by (simp_all add: sizeof_struct_data_t_def DATA_BYTES_def)
  have first: "\<forall>j < k. \<not> validates p d 66 j"
    using before by (simp add: validates_def)
  have ok: "validates p d 66 k \<longleftrightarrow>
      calculate_crc16 p (take (sizeof_struct_data_t - 2) (payload_of d k sizeof_struct_data_t)) =
           u16_of_bytes (big_endian p)
             (payload_of d k sizeof_struct_data_t ! (sizeof_struct_data_t - 2))
             (payload_of d k sizeof_struct_data_t ! (sizeof_struct_data_t - 1))"
    using k(2)
    by (simp add: validates_full_record trailing_crc_ok_def sizeof_struct_data_t_def DATA_BYTES_def)
  have "(\<exists>buffer' d'. load_loop p 66 buffer 0 (replicate sizeof_struct_data_t 0) d =
            Inr (Returned k buffer' d')) \<longleftrightarrow> validates p d 66 k"
  proof
    assume v: "validates p d 66 k"
    have "load_loop p 66 buffer 0 (replicate sizeof_struct_data_t 0) d =
      Inr (Returned k (payload_of d k (unat (66 :: 32 word)) @ drop (unat (66 :: 32 word)) buffer)
          (d\<lparr>trace := trace d @ concat (map (scan_reads d 66) [0..<Suc k])\<rparr>))"
      using sz k(1) _ v by (rule load_loop_finds) (use first in simp_all)
    then show "\<exists>buffer' d'. load_loop p 66 buffer 0 (replicate sizeof_struct_data_t 0) d =
            Inr (Returned k buffer' d')"
      by blast
  next
    assume "\<exists>buffer' d'. load_loop p 66 buffer 0 (replicate sizeof_struct_data_t 0) d =
            Inr (Returned k buffer' d')"
    then obtain buffer' d' where r: "load_loop p 66 buffer 0 (replicate sizeof_struct_data_t 0) d =
            Inr (Returned k buffer' d')"
      by blast
    from load_loop_total [OF sz, of p d] r show "validates p d 66 k"
      by auto
  qed
  with ok show ?thesis by simp
qed

theorem crc_check_covers_full_record_witness:
  "status_of two_valid 1 = SECTOR_ACTIVE \<and> status_of two_valid 0 \<noteq> SECTOR_ACTIVE \<and>
   trailing_crc_ok xmodem_le (payload_of two_valid 1 sizeof_struct_data_t) \<and>
   (\<exists>buffer' d'. load_loop xmodem_le 66 (replicate 66 0) 0 (replicate sizeof_struct_data_t 0) two_valid =
      Inr (Returned 1 buffer' d'))"
proof -
  have h1: "(1 :: nat) < NUMBER_OF_SECTORS"
    by (simp add: NUMBER_OF_SECTORS_def)
  have h2: "status_of two_valid 0 \<noteq> SECTOR_ACTIVE"
    by (simp add: two_valid_slots(1) SECTOR_ACTIVE_def SECTOR_INACTIVE_def)
  then have h3: "\<forall>j < (1 :: nat). status_of two_valid j \<noteq> SECTOR_ACTIVE"
    by simp
  have h4: "sizeof_struct_data_t \<le> length (replicate 66 (0 :: byte))"
    by (simp add: sizeof_struct_data_t_def DATA_BYTES_def)
  have ok: "trailing_crc_ok xmodem_le (payload_of two_valid 1 sizeof_struct_data_t)"
    by (simp only: two_valid_slots(4) trailing_crc_record_1_to_64)
  then have "calculate_crc16 xmodem_le
        (take (sizeof_struct_data_t - 2) (payload_of two_valid 1 sizeof_struct_data_t)) =
      u16_of_bytes (big_endian xmodem_le)
        (payload_of two_valid 1 sizeof_struct_data_t ! (sizeof_struct_data_t - 2))
        (payload_of two_valid 1 sizeof_struct_data_t ! (sizeof_struct_data_t - 1))"
    by (simp add: trailing_crc_ok_def)
  then have "\<exists>buffer' d'. load_loop xmodem_le 66 (replicate 66 0) 0 (replicate sizeof_struct_data_t 0) two_valid =
      Inr (Returned 1 buffer' d')"
    by (simp only: crc_check_covers_full_record [OF h1 two_valid_slots(2) h3 h4, of xmodem_le])
  with two_valid_slots(2) h2 ok show ?thesis by blast
qed

section \<open>What load does with the caller's buffer\<close>

text \<open>
  Claim C5 as stated does not hold on the recovery path: there \<open>eeprom_sector_load\<close>
  never writes to the caller's buffer (the only \<open>memcpy\<close> is on the path that returns a
  valid sector). A load on an erased device with a buffer of 66 bytes 0xAA returns 0 and
  the buffer still holds 66 bytes 0xAA, not zeros.
\<close>

theorem load_fresh_device_buffer_counterexample:
  "seen (eeprom_sector_load xmodem_le fresh_device (replicate 66 0xAA) 66) =
     Inr (0, replicate 66 0xAA) \<and>
   replicate 66 (0xAA :: byte) \<noteq> replicate 66 0"
  using load_fresh_device_seen by (simp add: replicate_numeral)

text \<open>
  Claim C5, amended to what each path does with the buffer (size within the staging
  struct, buffer of at least that size). When a slot validates, the load returns the
  lowest such slot and the first \<open>size\<close> bytes of the buffer are that slot's payload,
  the bytes behind them untouched. When no slot validates, the load returns 0 and the
  buffer is exactly what the caller passed in.
\<close>

theorem load_buffer_on_each_path:
  assumes "2 \<le> unat sz" "unat sz \<le> sizeof_struct_data_t" "unat sz \<le> length buffer"
  shows "(\<forall>k < NUMBER_OF_SECTORS. validates p d sz k \<longrightarrow> (\<forall>j < k. \<not> validates p d sz j) \<longrightarrow>
            seen (eeprom_sector_load p d buffer sz) =
              Inr (of_nat k, payload_of d k (unat sz) @ drop (unat sz) buffer)) \<and>
         ((\<forall>k < NUMBER_OF_SECTORS. \<not> validates p d sz k) \<longrightarrow>
            seen (eeprom_sector_load p d buffer sz) = Inr (0, buffer))"
proof (intro conjI allI impI)
  fix k
  assume "k < NUMBER_OF_SECTORS" "validates p d sz k" "\<forall>j < k. \<not> validates p d sz j"
  with assms have "eeprom_sector_load p d buffer sz =
    Inr (of_nat k, payload_of d k (unat sz) @ drop (unat sz) buffer,
         d\<lparr>trace := trace d @ concat (map (scan_reads d sz) [0..<Suc k])\<rparr>)"
    by (rule load_returns_first)
  then show "seen (eeprom_sector_load p d buffer sz) =
      Inr (of_nat k, payload_of d k (unat sz) @ drop (unat sz) buffer)"
    by (simp add: seen_def)
next
  assume "\<forall>k < NUMBER_OF_SECTORS. \<not> validates p d sz k"
  with assms(1,2) have "eeprom_sector_load p d buffer sz =
    Inr (0, buffer,
         bootstrapped (d\<lparr>trace := trace d @ concat (map (scan_reads d sz) [0..<NUMBER_OF_SECTORS])\<rparr>)
           (take (unat sz)
              (staging_after d sz (replicate sizeof_struct_data_t 0) [0..<NUMBER_OF_SECTORS])))"
    by (rule load_bootstraps)
  then show "seen (eeprom_sector_load p d buffer sz) = Inr (0, buffer)"
    by (simp add: seen_def)
qed

lemma fresh_statuses: "status_of fresh_device i \<noteq> SECTOR_ACTIVE"
  by (simp add: status_of_def fresh_device_def erased_mem_def SECTOR_ACTIVE_def)

lemma fresh_none_validates:
  "\<forall>k < NUMBER_OF_SECTORS. \<not> validates p fresh_device sz k"
  by (simp add: validates_def fresh_statuses)

theorem load_buffer_on_each_path_witness:
  "validates xmodem_le two_valid 66 1 \<and> \<not> validates xmodem_le two_valid 66 0 \<and>
   seen (eeprom_sector_load xmodem_le two_valid (replicate 66 0xAA) 66) = Inr (1, record_1_to_64) \<and>
   \<not> validates xmodem_le fresh_device 66 0 \<and> \<not> validates xmodem_le fresh_device 66 1 \<and>
   \<not> validates xmodem_le fresh_device 66 2 \<and> \<not> validates xmodem_le fresh_device 66 3 \<and>
   seen (eeprom_sector_load xmodem_le fresh_device (replicate 66 0xAA) 66) =
     Inr (0, replicate 66 0xAA)"
proof -
  have h: "2 \<le> unat (66 :: 32 word)" "unat (66 :: 32 word) \<le> sizeof_struct_data_t"
    "unat (66 :: 32 word) \<le> length (replicate 66 (0xAA :: byte))"
    by (simp_all add: sizeof_struct_data_t_def DATA_BYTES_def)
  have one: "(1 :: nat) < NUMBER_OF_SECTORS" by (simp add: NUMBER_OF_SECTORS_def)
  have first: "\<forall>j < (1 :: nat). \<not> validates xmodem_le two_valid 66 j"
    using two_valid_validates(1) by simp
  have "seen (eeprom_sector_load xmodem_le two_valid (replicate 66 0xAA) 66) =
      Inr (of_nat 1, payload_of two_valid 1 (unat (66 :: 32 word)) @
        drop (unat (66 :: 32 word)) (replicate 66 0xAA))"
    using load_buffer_on_each_path [OF h, of xmodem_le two_valid] one two_valid_validates(2) first
    by blast
  then have a: "seen (eeprom_sector_load xmodem_le two_valid (replicate 66 0xAA) 66) =
      Inr (1, record_1_to_64)"
    using two_valid_slots(4) by (simp add: sizeof_struct_data_t_def DATA_BYTES_def)
  have b: "seen (eeprom_sector_load xmodem_le fresh_device (replicate 66 0xAA) 66) =
      Inr (0, replicate 66 0xAA)"
    using load_buffer_on_each_path [OF h, of xmodem_le fresh_device] fresh_none_validates
    by blast
  have c: "\<not> validates xmodem_le fresh_device 66 0 \<and> \<not> validates xmodem_le fresh_device 66 1 \<and>
      \<not> validates xmodem_le fresh_device 66 2 \<and> \<not> validates xmodem_le fresh_device 66 3"
    using fresh_none_validates [of xmodem_le 66] by (simp add: NUMBER_OF_SECTORS_def)
  from a b c two_valid_validates(1,2) show ?thesis by blast
qed

section \<open>The recovery path\<close>

lemma payload_of_bootstrapped:
  "length bs \<le> 65536 \<Longrightarrow> payload_of (bootstrapped d bs) 0 (length bs) = bs"
  by (simp add: bootstrapped_def payload_of_write_payload_same)

lemma load_bootstraps_when_none_active:
  assumes sz: "2 \<le> unat sz" "unat sz \<le> sizeof_struct_data_t"
    and none: "\<forall>k < NUMBER_OF_SECTORS. status_of d k \<noteq> SECTOR_ACTIVE"
  shows "eeprom_sector_load p d buffer sz =
    Inr (0, buffer,
         bootstrapped (d\<lparr>trace := trace d @ concat (map (scan_reads d sz) [0..<NUMBER_OF_SECTORS])\<rparr>)
           (replicate (unat sz) 0))"
proof -
  have nv: "\<forall>k < NUMBER_OF_SECTORS. \<not> validates p d sz k"
    using none by (simp add: validates_def)
  have "staging_after d sz (replicate sizeof_struct_data_t 0) [0..<NUMBER_OF_SECTORS] =
      replicate sizeof_struct_data_t 0"
    using none by (intro staging_after_none_active) simp
  with load_bootstraps [OF sz nv, of buffer] sz(2) show ?thesis
    by (simp add: min_def)
qed

lemma erased_payload: "fetch_bytes (erased_mem(0x3000 := 1)) 0x3002 66 = replicate 66 0xFF"
  by (simp add: fetch_bytes_numeral replicate_numeral erased_mem_def)

lemma torn_write_slots:
  "status_of torn_write 0 \<noteq> SECTOR_ACTIVE"
  "status_of torn_write 1 \<noteq> SECTOR_ACTIVE"
  "status_of torn_write 2 \<noteq> SECTOR_ACTIVE"
  "status_of torn_write 3 = SECTOR_ACTIVE"
  "payload_of torn_write 3 sizeof_struct_data_t = replicate 66 0xFF"
  using erased_payload
  by (simp_all add: status_of_def payload_of_def torn_write_def sector_status_address_def
      sector_address_def erased_mem_def SECTOR_ACTIVE_def sizeof_struct_data_t_def DATA_BYTES_def)

lemma crc16_erased: "crc16_xmodem (replicate 64 0xFF) = 0x278E"
  by (simp add: crc16_xmodem_def crc16_update_def crc16_shift_def replicate_numeral)

lemma erased_record_rejected: "\<not> trailing_crc_ok xmodem_le (replicate 66 0xFF)"
  by (simp add: trailing_crc_ok_def xmodem_le_def crc16_erased u16_of_bytes_def)

lemma torn_write_none_validates:
  "\<forall>k < NUMBER_OF_SECTORS. \<not> validates xmodem_le torn_write 66 k"
  using torn_write_slots erased_record_rejected
  by (simp add: all_sectors validates_full_record)

lemma torn_write_staging:
  "staging_after torn_write 66 (replicate sizeof_struct_data_t 0) [0..<NUMBER_OF_SECTORS] =
     replicate 66 0xFF"
  using torn_write_slots
  by (simp add: upt_sectors staging_after_def staged_full [OF unat_66])

lemma torn_write_reads:
  "concat (map (scan_reads torn_write 66) [0..<NUMBER_OF_SECTORS]) =
     [Read 0x0000 1, Read 0x1000 1, Read 0x2000 1, Read 0x3000 1, Read 0x3002 66]"
  using torn_write_slots
  by (simp add: upt_sectors scan_reads_def sector_status_address_def sector_address_def)

lemma trace_torn_write: "trace torn_write = []"
  by (simp add: torn_write_def)

text \<open>
  Claim C4 against the code, at a device on which one slot is active and fails the CRC
  test: \<open>torn_write\<close>, where slot 3 is marked active over an erased payload. The load
  takes the recovery path and returns 0, but the payload it writes to slot 0 is the
  staging struct as the loop left it, the 66 bytes 0xFF read from slot 3, not zeros.
\<close>

theorem load_recovery_writes_stale_staging:
  "eeprom_sector_load xmodem_le torn_write (replicate 66 0) 66 =
     Inr (0, replicate 66 0,
          bootstrapped
            (torn_write\<lparr>trace :=
               [Read 0x0000 1, Read 0x1000 1, Read 0x2000 1, Read 0x3000 1, Read 0x3002 66]\<rparr>)
            (replicate 66 0xFF)) \<and>
   payload_of
     (bootstrapped
        (torn_write\<lparr>trace :=
           [Read 0x0000 1, Read 0x1000 1, Read 0x2000 1, Read 0x3000 1, Read 0x3002 66]\<rparr>)
        (replicate 66 0xFF)) 0 66 = replicate 66 0xFF \<and>
   replicate 66 (0xFF :: byte) \<noteq> replicate 66 0"
proof -
  have sz: "2 \<le> unat (66 :: 32 word)" "unat (66 :: 32 word) \<le> sizeof_struct_data_t"
    by (simp_all add: sizeof_struct_data_t_def DATA_BYTES_def)
  have "eeprom_sector_load xmodem_le torn_write (replicate 66 0) 66 =
     Inr (0, replicate 66 0,
          bootstrapped
            (torn_write\<lparr>trace :=
               [Read 0x0000 1, Read 0x1000 1, Read 0x2000 1, Read 0x3000 1, Read 0x3002 66]\<rparr>)
            (replicate 66 0xFF))"
    using load_bootstraps [OF sz torn_write_none_validates, of "replicate 66 0"]
    by (simp add: torn_write_staging torn_write_reads trace_torn_write)
  moreover have "payload_of
     (bootstrapped
        (torn_write\<lparr>trace :=
           [Read 0x0000 1, Read 0x1000 1, Read 0x2000 1, Read 0x3000 1, Read 0x3002 66]\<rparr>)
        (replicate 66 0xFF)) 0 66 = replicate 66 0xFF"
    using payload_of_bootstrapped [of "replicate 66 (0xFF :: byte)"] by simp
  moreover have "replicate 66 (0xFF :: byte) \<noteq> replicate 66 0"
    by (simp add: replicate_numeral)
  ultimately show ?thesis by blast
qed

section \<open>The lowest slot with a correct CRC is returned\<close>

lemma bad_before_good_slots:
  "status_of bad_before_good 0 \<noteq> SECTOR_ACTIVE"
  "status_of bad_before_good 1 = SECTOR_ACTIVE"
  "status_of bad_before_good 3 = SECTOR_ACTIVE"
  "payload_of bad_before_good 1 2 = [0x12, 0x34]"
  "payload_of bad_before_good 3 2 = [0x00, 0x00]"
proof -
  have s: "(0::nat) < NUMBER_OF_SECTORS" "(1::nat) < NUMBER_OF_SECTORS"
    "(3::nat) < NUMBER_OF_SECTORS"
    by (simp_all add: NUMBER_OF_SECTORS_def)
  have l: "length [0x12, 0x34 :: byte] \<le> 4094" "length [0x00, 0x00 :: byte] \<le> 4094"
    by simp_all
  let ?d3 = "rotated slot0_active [0x00, 0x00] 0 3"
  have st: "status_of bad_before_good j =
      (if j = 1 then SECTOR_ACTIVE else if j = 0 then SECTOR_INACTIVE else status_of ?d3 j)"
    if "j < NUMBER_OF_SECTORS" for j
    unfolding bad_before_good_def using s(1,2) that l(1) by (rule status_of_rotated)
  have st3: "status_of ?d3 j =
      (if j = 3 then SECTOR_ACTIVE else if j = 0 then SECTOR_INACTIVE else status_of slot0_active j)"
    if "j < NUMBER_OF_SECTORS" for j
    using s(1,3) that l(2) by (rule status_of_rotated)
  show "status_of bad_before_good 0 \<noteq> SECTOR_ACTIVE"
    using st [OF s(1)] by (simp add: SECTOR_ACTIVE_def SECTOR_INACTIVE_def)
  show "status_of bad_before_good 1 = SECTOR_ACTIVE"
    using st [OF s(2)] by simp
  show "status_of bad_before_good 3 = SECTOR_ACTIVE"
    using st [OF s(3)] st3 [OF s(3)] by simp
  show "payload_of bad_before_good 1 2 = [0x12, 0x34]"
    unfolding bad_before_good_def
    using payload_of_rotated_new [OF l(1), of ?d3 0 1] by (simp add: numeral_2_eq_2)
  have "payload_of bad_before_good 3 2 = payload_of ?d3 3 2"
    unfolding bad_before_good_def using s l
    by (intro payload_of_rotated_other) simp_all
  then show "payload_of bad_before_good 3 2 = [0x00, 0x00]"
    using payload_of_rotated_new [OF l(2), of slot0_active 0 3] by (simp add: numeral_2_eq_2)
qed

lemma crc16_no_data: "crc16_xmodem [] = 0"
  by (simp add: crc16_xmodem_def)

lemma crc_only_records:
  "\<not> trailing_crc_ok xmodem_le [0x12, 0x34]"
  "trailing_crc_ok xmodem_le [0x00, 0x00]"
  by (simp_all add: trailing_crc_ok_def xmodem_le_def crc16_no_data u16_of_bytes_def)

lemma bad_before_good_validates:
  "\<not> validates xmodem_le bad_before_good 2 0"
  "validates xmodem_le bad_before_good 2 1"
  using bad_before_good_slots
  by (simp_all add: validates_def staged_def crc_matches_def struct_crc_def xmodem_le_def
      crc16_no_data u16_of_bytes_def sizeof_struct_data_t_def DATA_BYTES_def nth_append)

lemma load_bad_before_good:
  "seen (eeprom_sector_load xmodem_le bad_before_good [0xAA, 0xAA] 2) = Inr (1, [0x12, 0x34])"
proof -
  have h: "2 \<le> unat (2 :: 32 word)" "unat (2 :: 32 word) \<le> sizeof_struct_data_t"
    "unat (2 :: 32 word) \<le> length [0xAA, 0xAA :: byte]" "(1 :: nat) < NUMBER_OF_SECTORS"
    by (simp_all add: sizeof_struct_data_t_def DATA_BYTES_def NUMBER_OF_SECTORS_def)
  have first: "\<forall>j < (1 :: nat). \<not> validates xmodem_le bad_before_good 2 j"
    using bad_before_good_validates(1) by simp
  from load_returns_first [OF h bad_before_good_validates(2) first]
  show ?thesis
    using bad_before_good_slots(4) by (simp add: seen_def)
qed

text \<open>
  Claim C3 as stated, for a load of any size, does not hold: the test the loop applies
  compares the CRC of the first \<open>size - 2\<close> bytes with bytes 64 and 65 of the staging
  struct, which for a size below 65 are zero whatever the slot holds. On
  \<open>bad_before_good\<close>, with records of 2 bytes, the first active slot whose trailing two
  bytes are the CRC of the bytes before them is slot 3; the load returns slot 1, whose
  bytes 0x12 0x34 are not, and copies them into the buffer.
\<close>

theorem load_returns_invalid_short_record_counterexample:
  "status_of bad_before_good 1 = SECTOR_ACTIVE \<and>
   payload_of bad_before_good 1 2 = [0x12, 0x34] \<and>
   \<not> trailing_crc_ok xmodem_le [0x12, 0x34] \<and>
   status_of bad_before_good 3 = SECTOR_ACTIVE \<and>
   payload_of bad_before_good 3 2 = [0x00, 0x00] \<and>
   trailing_crc_ok xmodem_le [0x00, 0x00] \<and>
   seen (eeprom_sector_load xmodem_le bad_before_good [0xAA, 0xAA] 2) = Inr (1, [0x12, 0x34])"
  using bad_before_good_slots(2,3,4,5) crc_only_records load_bad_before_good by simp

text \<open>
  Claim C3, amended to the size of the struct. For size 66 = \<open>sizeof(struct_data_t)\<close> and
  a buffer of at least 66 bytes: if slot \<open>k\<close> is active and the last two bytes of its
  66-byte payload are the CRC-16 of the first 64, and no slot below \<open>k\<close> is both active
  and such, then \<open>eeprom_sector_load\<close> returns \<open>k\<close> with the first 66 bytes of the buffer
  replaced by the slot's payload. Its transport calls are the status reads of slots
  0, 1, ..., k in this order, each followed by a payload read exactly when the status
  byte read is 1; a slot whose status byte is not 1 is passed over without a payload
  read. So of two active slots with a correct CRC the lower index is returned.
\<close>

theorem load_returns_lowest_slot_with_correct_crc:
  assumes len: "sizeof_struct_data_t \<le> length buffer"
    and k: "k < NUMBER_OF_SECTORS" "status_of d k = SECTOR_ACTIVE"
      "trailing_crc_ok p (payload_of d k sizeof_struct_data_t)"
    and first: "\<forall>j < k. \<not> (status_of d j = SECTOR_ACTIVE \<and>
      trailing_crc_ok p (payload_of d j sizeof_struct_data_t))"
  shows "eeprom_sector_load p d buffer 66 =
    Inr (of_nat k, payload_of d k sizeof_struct_data_t @ drop sizeof_struct_data_t buffer,
         d\<lparr>trace := trace d @ concat (map (scan_reads d 66) [0..<Suc k])\<rparr>)"
proof -
  have sz: "2 \<le> unat (66 :: 32 word)" "unat (66 :: 32 word) \<le> sizeof_struct_data_t"
    "unat (66 :: 32 word) \<le> length buffer"
    using len by (simp_all add: sizeof_struct_data_t_def DATA_BYTES_def)
  have v: "validates p d 66 k"
    using k(2,3) by (simp add: validates_full_record)
  have nv: "\<forall>j < k. \<not> validates p d 66 j"
    using first by (simp add: validates_full_record)
  have "eeprom_sector_load p d buffer 66 =
    Inr (of_nat k, payload_of d k (unat (66 :: 32 word)) @ drop (unat (66 :: 32 word)) buffer,
         d\<lparr>trace := trace d @ concat (map (scan_reads d 66) [0..<Suc k])\<rparr>)"
    using sz k(1) v nv by (rule load_returns_first)
  then show ?thesis by (simp only: unat_66)
qed

lemma erased_payload_slot0:
  "fetch_bytes (erased_mem(0x0000 := 1)) 0x0002 66 = replicate 66 0xFF"
  by (simp add: fetch_bytes_numeral replicate_numeral erased_mem_def)

lemma stale_then_valid_slots:
  "status_of stale_then_valid 0 = SECTOR_ACTIVE"
  "status_of stale_then_valid 1 \<noteq> SECTOR_ACTIVE"
  "status_of stale_then_valid 2 = SECTOR_ACTIVE"
  "payload_of stale_then_valid 0 sizeof_struct_data_t = replicate 66 0xFF"
  "payload_of stale_then_valid 2 sizeof_struct_data_t = record_1_to_64"
proof -
  have s: "(0::nat) < NUMBER_OF_SECTORS" "(1::nat) < NUMBER_OF_SECTORS"
    "(2::nat) < NUMBER_OF_SECTORS"
    by (simp_all add: NUMBER_OF_SECTORS_def)
  have l: "length record_1_to_64 \<le> 4094"
    using sizeof_le_capacity by (simp add: length_record_1_to_64)
  have st: "status_of stale_then_valid j =
      (if j = 2 then SECTOR_ACTIVE else if j = 1 then SECTOR_INACTIVE else status_of slot0_active j)"
    if "j < NUMBER_OF_SECTORS" for j
    unfolding stale_then_valid_def using s(2,3) that l by (rule status_of_rotated)
  show "status_of stale_then_valid 0 = SECTOR_ACTIVE"
    using st [OF s(1)] slot0_active_statuses [OF s(1)] by simp
  show "status_of stale_then_valid 1 \<noteq> SECTOR_ACTIVE"
    using st [OF s(2)] by (simp add: SECTOR_ACTIVE_def SECTOR_INACTIVE_def)
  show "status_of stale_then_valid 2 = SECTOR_ACTIVE"
    using st [OF s(3)] by simp
  have "payload_of stale_then_valid 0 sizeof_struct_data_t =
      payload_of slot0_active 0 sizeof_struct_data_t"
    unfolding stale_then_valid_def using s l sizeof_le_capacity
    by (intro payload_of_rotated_other) simp_all
  then show "payload_of stale_then_valid 0 sizeof_struct_data_t = replicate 66 0xFF"
    using erased_payload_slot0
    by (simp add: payload_of_def slot0_active_def sector_address_def
        sizeof_struct_data_t_def DATA_BYTES_def)
  show "payload_of stale_then_valid 2 sizeof_struct_data_t = record_1_to_64"
    unfolding stale_then_valid_def
    using payload_of_rotated_new [OF l, of slot0_active 1 2]
    by (simp add: length_record_1_to_64)
qed

theorem load_returns_lowest_slot_with_correct_crc_witness:
  "status_of stale_then_valid 0 = SECTOR_ACTIVE \<and>
   \<not> trailing_crc_ok xmodem_le (payload_of stale_then_valid 0 sizeof_struct_data_t) \<and>
   status_of stale_then_valid 1 \<noteq> SECTOR_ACTIVE \<and>
   status_of stale_then_valid 2 = SECTOR_ACTIVE \<and>
   trailing_crc_ok xmodem_le (payload_of stale_then_valid 2 sizeof_struct_data_t) \<and>
   seen (eeprom_sector_load xmodem_le stale_then_valid (replicate 66 0) 66) =
     Inr (2, record_1_to_64)"
proof -
  have h1: "sizeof_struct_data_t \<le> length (replicate 66 (0 :: byte))"
    by (simp add: sizeof_struct_data_t_def DATA_BYTES_def)
  have h2: "(2 :: nat) < NUMBER_OF_SECTORS"
    by (simp add: NUMBER_OF_SECTORS_def)
  have bad: "\<not> trailing_crc_ok xmodem_le (payload_of stale_then_valid 0 sizeof_struct_data_t)"
    by (simp only: stale_then_valid_slots(4) erased_record_rejected not_False_eq_True)
  have good: "trailing_crc_ok xmodem_le (payload_of stale_then_valid 2 sizeof_struct_data_t)"
    by (simp only: stale_then_valid_slots(5) trailing_crc_record_1_to_64)
  have first: "\<forall>j < (2 :: nat). \<not> (status_of stale_then_valid j = SECTOR_ACTIVE \<and>
      trailing_crc_ok xmodem_le (payload_of stale_then_valid j sizeof_struct_data_t))"
  proof (intro allI impI)
    fix j :: nat assume "j < 2"
    then have "j = 0 \<or> j = 1" by arith
    then show "\<not> (status_of stale_then_valid j = SECTOR_ACTIVE \<and>
      trailing_crc_ok xmodem_le (payload_of stale_then_valid j sizeof_struct_data_t))"
      using bad stale_then_valid_slots(2) by auto
  qed
  have "eeprom_sector_load xmodem_le stale_then_valid (replicate 66 0) 66 =
    Inr (of_nat 2,
         payload_of stale_then_valid 2 sizeof_struct_data_t @
           drop sizeof_struct_data_t (replicate 66 0),
         stale_then_valid\<lparr>trace := trace stale_then_valid @
           concat (map (scan_reads stale_then_valid 66) [0..<Suc 2])\<rparr>)"
    using h1 h2 stale_then_valid_slots(3) good first
    by (rule load_returns_lowest_slot_with_correct_crc)
  then have "seen (eeprom_sector_load xmodem_le stale_then_valid (replicate 66 0) 66) =
      Inr (2, record_1_to_64)"
    using stale_then_valid_slots(5)
    by (simp add: seen_def sizeof_struct_data_t_def DATA_BYTES_def)
  with stale_then_valid_slots(1,2,3) bad good show ?thesis by blast
qed

end
